theory Spec2Isabelle
  imports Main "HOL-Library.Char_ord" "HOL-Library.List_Lexorder"
    "HOL-Library.Product_Lexorder" "HOL-Library.Option_ord"
begin

section \<open>Data model\<close>

text \<open>
  The vulnerability database of \<^verbatim>\<open>internal/database\<close>. A \<^verbatim>\<open>time.Time\<close> is modelled by
  the instant it denotes, an integer counted from Go's zero time (January 1, year 1, UTC),
  so that earlier instants are negative; \<^verbatim>\<open>t.After(u)\<close> is \<open>u < t\<close>. Go's \<^verbatim>\<open>==\<close> on two
  times and \<^verbatim>\<open>reflect.DeepEqual\<close> on two entries are modelled by equality of the modelled
  values: two Go values that are equal for Go denote equal values here.

  An entry has the fields that the entries of \<^verbatim>\<open>new_test.go\<close> are written with; the check
  reads its ID, its modified time, its aliases and the names of the modules it affects, and
  compares entries as wholes. A pointer to an entry is modelled by the entry.
\<close>

type_synonym Time = int

definition zeroTime :: Time where
  "zeroTime = 0"

definition After :: "Time \<Rightarrow> Time \<Rightarrow> bool" where
  "After t u = (u < t)"

record RangeEvent =
  Introduced :: string
  Fixed :: string

record AffectsRange =
  Type :: string
  Events :: "RangeEvent list"

record Package =
  Name :: string
  Ecosystem :: string

record EcosystemSpecificImport =
  Path :: string
  Symbols :: "string list"

record Affected =
  Package :: Package
  Ranges :: "AffectsRange list"
  DatabaseSpecificURL :: string
  Imports :: "EcosystemSpecificImport list"

record Entry =
  ID :: string
  Published :: Time
  Modified :: Time
  Aliases :: "string list"
  Details :: string
  Affected :: "Affected list"
  References :: "(string \<times> string) list"

text \<open>
  The four Go maps of the \<^verbatim>\<open>Database\<close> that \<^verbatim>\<open>validate.go\<close> reads. A Go map is modelled
  by an association list: \<^verbatim>\<open>m[k]\<close> is \<open>map_of m k\<close>, \<^verbatim>\<open>len(m)\<close> is the length of the list, and
  \<^verbatim>\<open>for k, v := range m\<close> visits the pairs in the order of the list. Go leaves the order of
  a range over a map open; a statement proved for every list holds for every order.
\<close>

record Database =
  Index :: "(string \<times> Time) list"
  EntriesByID :: "(string \<times> Entry) list"
  EntriesByModule :: "(string \<times> Entry list) list"
  IDsByAlias :: "(string \<times> string list) list"

text \<open>One constructor for each error that \<^verbatim>\<open>validate.go\<close> builds, with the values it formats.\<close>

datatype error =
    WalkError string
  | NonJSONFile string
  | UnexpectedID string
  | CouldNotUnescape string string
  | UnexpectedModule string
  | LengthMismatch nat nat
  | NoModuleDirectory string
  | NoAdvisoryForID string string
  | InconsistentOSV string
  | IncorrectModified string Time Time
  | ModuleNotFound string string
  | NoEntryInModule string string
  | AliasNotFound string string
  | NotListedAsAlias string string
  | NoAdvisoryUnderAlias string string
  | AdvisoryLacksAlias string string
  | DuplicateID string

type_synonym result = "error + unit"

abbreviation OK :: result where
  "OK \<equiv> Inr ()"

section \<open>The cross-index consistency check\<close>

text \<open>A \<^verbatim>\<open>for ... range\<close> loop whose body returns on an error: the first error ends it.\<close>

fun forEach :: "('a \<Rightarrow> result) \<Rightarrow> 'a list \<Rightarrow> result" where
  "forEach body [] = OK"
| "forEach body (x # xs) =
     (case body x of Inl e \<Rightarrow> Inl e | Inr _ \<Rightarrow> forEach body xs)"

text \<open>
  Lines 111 to 124: the loop over the entries of one module. It carries \<^verbatim>\<open>wantModified\<close>,
  raises it first, then compares the entry with the one stored under its ID.
\<close>

fun checkEntries :: "Database \<Rightarrow> string \<Rightarrow> Time \<Rightarrow> Entry list \<Rightarrow> error + Time" where
  "checkEntries d module wantModified [] = Inr wantModified"
| "checkEntries d module wantModified (entry # entries) =
     (let wantModified' =
            (if After (Modified entry) wantModified then Modified entry else wantModified)
      in case map_of (EntriesByID d) (ID entry) of
           None \<Rightarrow> Inl (NoAdvisoryForID (ID entry) module)
         | Some entryByID \<Rightarrow>
             if entry \<noteq> entryByID then Inl (InconsistentOSV (ID entry))
             else checkEntries d module wantModified' entries)"

text \<open>Lines 105 to 128: the body of the loop over \<^verbatim>\<open>d.Index\<close>.\<close>

definition checkModule :: "Database \<Rightarrow> string \<times> Time \<Rightarrow> result" where
  "checkModule d = (\<lambda>(module, modified).
     case map_of (EntriesByModule d) module of
       None \<Rightarrow> Inl (NoModuleDirectory module)
     | Some entries \<Rightarrow>
         if length entries = 0 then Inl (NoModuleDirectory module)
         else (case checkEntries d module zeroTime entries of
                 Inl e \<Rightarrow> Inl e
               | Inr wantModified \<Rightarrow>
                   if modified \<noteq> wantModified
                   then Inl (IncorrectModified module wantModified modified)
                   else OK))"

text \<open>Lines 131 to 147: one affected module of the entry stored under the key \<open>eid\<close> (the source's \<^verbatim>\<open>id\<close>).\<close>

definition checkAffected :: "Database \<Rightarrow> string \<Rightarrow> Affected \<Rightarrow> result" where
  "checkAffected d eid affected =
     (let module = Name (Package affected)
      in case map_of (EntriesByModule d) module of
           None \<Rightarrow> Inl (ModuleNotFound module eid)
         | Some entries \<Rightarrow>
             if length entries = 0 then Inl (ModuleNotFound module eid)
             else if list_ex (\<lambda>gotEntry. ID gotEntry = eid) entries then OK
             else Inl (NoEntryInModule eid module))"

text \<open>Lines 148 to 163: one alias of the entry stored under the key \<open>eid\<close>.\<close>

definition checkAlias :: "Database \<Rightarrow> string \<Rightarrow> Entry \<Rightarrow> string \<Rightarrow> result" where
  "checkAlias d eid entry alias =
     (case map_of (IDsByAlias d) alias of
        None \<Rightarrow> Inl (AliasNotFound alias eid)
      | Some gotEntries \<Rightarrow>
          if length gotEntries = 0 then Inl (AliasNotFound alias eid)
          else if list_ex (\<lambda>gotID. gotID = eid) gotEntries then OK
          else Inl (NotListedAsAlias (ID entry) alias))"

text \<open>Lines 130 to 164: the body of the loop over \<^verbatim>\<open>d.EntriesByID\<close>.\<close>

definition checkID :: "Database \<Rightarrow> string \<times> Entry \<Rightarrow> result" where
  "checkID d = (\<lambda>(eid, entry).
     case forEach (checkAffected d eid) (Affected entry) of
       Inl e \<Rightarrow> Inl e
     | Inr _ \<Rightarrow> forEach (checkAlias d eid entry) (Aliases entry))"

text \<open>Lines 167 to 176: one ID listed under \<open>alias\<close>.\<close>

definition checkGoID :: "Database \<Rightarrow> string \<Rightarrow> string \<Rightarrow> result" where
  "checkGoID d alias goID =
     (case map_of (EntriesByID d) goID of
        None \<Rightarrow> Inl (NoAdvisoryUnderAlias goID alias)
      | Some entry \<Rightarrow>
          if alias \<notin> set (Aliases entry) then Inl (AdvisoryLacksAlias goID alias)
          else OK)"

definition checkAliasIDs :: "Database \<Rightarrow> string \<times> string list \<Rightarrow> result" where
  "checkAliasIDs d = (\<lambda>(alias, goIDs). forEach (checkGoID d alias) goIDs)"

definition checkInternalConsistency :: "Database \<Rightarrow> result" where
  "checkInternalConsistency d =
     (if length (Index d) \<noteq> length (EntriesByModule d)
      then Inl (LengthMismatch (length (Index d)) (length (EntriesByModule d)))
      else case forEach (checkModule d) (Index d) of
             Inl e \<Rightarrow> Inl e
           | Inr _ \<Rightarrow>
               (case forEach (checkID d) (EntriesByID d) of
                  Inl e \<Rightarrow> Inl e
                | Inr _ \<Rightarrow> forEach (checkAliasIDs d) (IDsByAlias d)))"

section \<open>The file-inventory pass\<close>

text \<open>
  The string and path functions of Go's standard library that \<^verbatim>\<open>checkNoUnexpectedFiles\<close>
  calls, for slash-separated paths: \<^verbatim>\<open>strings.TrimPrefix\<close>, \<^verbatim>\<open>strings.TrimSuffix\<close>,
  \<^verbatim>\<open>filepath.Ext\<close>, \<^verbatim>\<open>filepath.Clean\<close>, \<^verbatim>\<open>filepath.Dir\<close> and \<^verbatim>\<open>filepath.Join\<close>.
\<close>

definition TrimPrefix :: "string \<Rightarrow> string \<Rightarrow> string" where
  "TrimPrefix s prefix =
     (if take (length prefix) s = prefix then drop (length prefix) s else s)"

definition TrimSuffix :: "string \<Rightarrow> string \<Rightarrow> string" where
  "TrimSuffix s suffix =
     (if length suffix \<le> length s \<and> drop (length s - length suffix) s = suffix
      then take (length s - length suffix) s else s)"

text \<open>
  \<^verbatim>\<open>Ext\<close> scans from the end of the path to the last slash and returns the suffix that
  starts at the last dot, or the empty string when the last element has no dot.
\<close>

fun extScan :: "string \<Rightarrow> string \<Rightarrow> string" where
  "extScan [] acc = []"
| "extScan (c # cs) acc =
     (if c = CHR ''/'' then []
      else if c = CHR ''.'' then c # acc
      else extScan cs (c # acc))"

definition Ext :: "string \<Rightarrow> string" where
  "Ext path = extScan (rev path) []"

fun splitSep :: "char \<Rightarrow> string \<Rightarrow> string list" where
  "splitSep sep [] = [[]]"
| "splitSep sep (c # cs) =
     (if c = sep then [] # splitSep sep cs
      else (case splitSep sep cs of
              [] \<Rightarrow> [[c]]
            | w # ws \<Rightarrow> (c # w) # ws))"

fun joinSep :: "char \<Rightarrow> string list \<Rightarrow> string" where
  "joinSep sep [] = []"
| "joinSep sep [w] = w"
| "joinSep sep (w # ws) = w @ sep # joinSep sep ws"

text \<open>
  \<^verbatim>\<open>Clean\<close> reads the path element by element. The stack holds the elements written so
  far, the last one written first: an empty element and \<^verbatim>\<open>.\<close> are dropped, \<^verbatim>\<open>..\<close> removes the element
  before it when there is one to remove, is dropped at the root, and is kept otherwise.
\<close>

definition cleanStep :: "bool \<Rightarrow> string list \<Rightarrow> string \<Rightarrow> string list" where
  "cleanStep rooted stack elem =
     (if elem = [] \<or> elem = ''.'' then stack
      else if elem = ''..'' then
        (case stack of
           [] \<Rightarrow> if rooted then [] else [elem]
         | prev # below \<Rightarrow>
             if prev \<noteq> ''..'' then below
             else if rooted then stack else elem # stack)
      else elem # stack)"

definition Clean :: "string \<Rightarrow> string" where
  "Clean path =
     (if path = [] then ''.''
      else let rooted = (hd path = CHR ''/'');
               out = joinSep (CHR ''/'') (rev (foldl (cleanStep rooted) [] (splitSep (CHR ''/'') path)))
           in if rooted then CHR ''/'' # out
              else if out = [] then ''.'' else out)"

definition Dir :: "string \<Rightarrow> string" where
  "Dir path = Clean (rev (dropWhile (\<lambda>c. c \<noteq> CHR ''/'') (rev path)))"

definition Join :: "string list \<Rightarrow> string" where
  "Join elem =
     (case dropWhile (\<lambda>e. e = []) elem of
        [] \<Rightarrow> []
      | e # es \<Rightarrow> Clean (joinSep (CHR ''/'') (e # es)))"

text \<open>
  What \<^verbatim>\<open>validate.go\<close> uses and the sources do not hold, taken as parameters: the
  constants \<^verbatim>\<open>idDirectory\<close>, \<^verbatim>\<open>indexFile\<close> and \<^verbatim>\<open>aliasesFile\<close> of the package,
  \<^verbatim>\<open>report.GetGoIDFromFilename\<close>, and \<^verbatim>\<open>client.UnescapeModulePath\<close> of the vulnerability
  client library, which returns the module path or an error message.
\<close>

record Collaborators =
  idDirectory :: string
  indexFile :: string
  aliasesFile :: string
  GetGoIDFromFilename :: "string \<Rightarrow> string"
  UnescapeModulePath :: "string \<Rightarrow> string + string"

text \<open>
  One call that \<^verbatim>\<open>filepath.WalkDir\<close> makes to the function it is given: either with a
  path and a directory entry (its name and whether it is a directory), or with the error of
  a failed read. The walk is the list of the calls in the order \<^verbatim>\<open>WalkDir\<close> makes them; it
  stops at the first call that returns an error and returns that error.
\<close>

datatype WalkCall = Visit string string bool | VisitError string

definition isIndexOrWebFile :: "Collaborators \<Rightarrow> string \<Rightarrow> string \<Rightarrow> bool" where
  "isIndexOrWebFile c filename ext =
     (ext = ''.ico'' \<or> ext = ''.html'' \<or> ext = [] \<or>
      filename = indexFile c \<or> filename = aliasesFile c)"

text \<open>Line 78: the module that a file path stands for, still escaped.\<close>

definition moduleOfPath :: "string \<Rightarrow> string \<Rightarrow> string" where
  "moduleOfPath dbPath path =
     TrimSuffix (TrimPrefix (TrimPrefix path dbPath) ''/'') ''.json''"

text \<open>Lines 46 to 88: the function given to \<^verbatim>\<open>WalkDir\<close>, with the cases of its switch in order.\<close>

fun checkFile :: "Collaborators \<Rightarrow> Database \<Rightarrow> string \<Rightarrow> WalkCall \<Rightarrow> result" where
  "checkFile c d dbPath (VisitError err) = Inl (WalkError err)"
| "checkFile c d dbPath (Visit path fname isDir) =
     (let ext = Ext fname; dir = Dir path in
      if isDir then OK
      else if dir = dbPath \<and> isIndexOrWebFile c fname ext then OK
      else if ext \<noteq> ''.json'' then Inl (NonJSONFile path)
      else if dir = Join [dbPath, idDirectory c] then
        (if fname = indexFile c then OK
         else let goID = GetGoIDFromFilename c fname in
           case map_of (EntriesByID d) goID of
             None \<Rightarrow> Inl (UnexpectedID goID)
           | Some _ \<Rightarrow> OK)
      else
        (let module = moduleOfPath dbPath path in
         case UnescapeModulePath c module of
           Inl err \<Rightarrow> Inl (CouldNotUnescape path err)
         | Inr unescaped \<Rightarrow>
             (case map_of (EntriesByModule d) unescaped of
                None \<Rightarrow> Inl (UnexpectedModule unescaped)
              | Some _ \<Rightarrow> OK)))"

definition checkNoUnexpectedFiles ::
    "Collaborators \<Rightarrow> Database \<Rightarrow> string \<Rightarrow> WalkCall list \<Rightarrow> result" where
  "checkNoUnexpectedFiles c d dbPath walk = forEach (checkFile c d dbPath) walk"

text \<open>Lines 35 to 43.\<close>

definition validate :: "Collaborators \<Rightarrow> Database \<Rightarrow> string \<Rightarrow> WalkCall list \<Rightarrow> result" where
  "validate c d dbPath walk =
     (case checkNoUnexpectedFiles c d dbPath walk of
        Inl err \<Rightarrow> Inl err
      | Inr _ \<Rightarrow>
          (case checkInternalConsistency d of
             Inl err \<Rightarrow> Inl err
           | Inr _ \<Rightarrow> OK))"

section \<open>Versions\<close>

text \<open>
  \<^verbatim>\<open>Version.Before\<close> of \<^verbatim>\<open>internal/report\<close> compares two versions with \<^verbatim>\<open>semver.Compare\<close>
  of the Go module library, after putting a \<^verbatim>\<open>v\<close> in front of each. The library is modelled
  here from its documented behaviour: \<^verbatim>\<open>parse\<close> accepts \<^verbatim>\<open>vMAJOR[.MINOR[.PATCH[-PRE][+BUILD]]]\<close>,
  numbers without leading zeros, and the order is the one of semantic versioning: by major,
  minor and patch number, then a version with a prerelease before the one without, then
  the prereleases identifier by identifier, a number before a word, numbers by value, words
  by their bytes, and a shorter list before a longer one that extends it. Build metadata is
  ignored, and an invalid version is smaller than every valid one.
\<close>

definition isDigit :: "char \<Rightarrow> bool" where
  "isDigit c = (CHR ''0'' \<le> c \<and> c \<le> CHR ''9'')"

definition isIdentChar :: "char \<Rightarrow> bool" where
  "isIdentChar c =
     ((CHR ''A'' \<le> c \<and> c \<le> CHR ''Z'') \<or> (CHR ''a'' \<le> c \<and> c \<le> CHR ''z'') \<or>
      isDigit c \<or> c = CHR ''-'')"

definition parseInt :: "string \<Rightarrow> (string \<times> string) option" where
  "parseInt v =
     (case v of
        [] \<Rightarrow> None
      | c # _ \<Rightarrow>
          if \<not> isDigit c then None
          else let t = takeWhile isDigit v in
            if c = CHR ''0'' \<and> length t \<noteq> 1 then None
            else Some (t, dropWhile isDigit v))"

definition isNum :: "string \<Rightarrow> bool" where
  "isNum v = list_all isDigit v"

definition isBadNum :: "string \<Rightarrow> bool" where
  "isBadNum v = (isNum v \<and> 1 < length v \<and> take 1 v = ''0'')"

definition parsePrerelease :: "string \<Rightarrow> (string \<times> string) option" where
  "parsePrerelease v =
     (case v of
        [] \<Rightarrow> None
      | c # cs \<Rightarrow>
          if c \<noteq> CHR ''-'' then None
          else let t = takeWhile (\<lambda>x. x \<noteq> CHR ''+'') cs in
            if list_all (\<lambda>x. isIdentChar x \<or> x = CHR ''.'') t \<and>
               list_all (\<lambda>ident. ident \<noteq> [] \<and> \<not> isBadNum ident) (splitSep (CHR ''.'') t)
            then Some (c # t, dropWhile (\<lambda>x. x \<noteq> CHR ''+'') cs)
            else None)"

definition parseBuild :: "string \<Rightarrow> (string \<times> string) option" where
  "parseBuild v =
     (case v of
        [] \<Rightarrow> None
      | c # cs \<Rightarrow>
          if c \<noteq> CHR ''+'' then None
          else if list_all (\<lambda>x. isIdentChar x \<or> x = CHR ''.'') cs \<and>
                  list_all (\<lambda>ident. ident \<noteq> []) (splitSep (CHR ''.'') cs)
          then Some (v, [])
          else None)"

text \<open>The parsed version: major, minor, patch and prerelease, as the strings read.\<close>

definition parseTail :: "string \<Rightarrow> string \<Rightarrow> string \<Rightarrow> string \<Rightarrow>
    (string \<times> string \<times> string \<times> string) option" where
  "parseTail major minor patch v =
     (case (if take 1 v = ''-'' then parsePrerelease v else Some ([], v)) of
        None \<Rightarrow> None
      | Some (prerelease, v') \<Rightarrow>
          (case (if take 1 v' = ''+'' then parseBuild v' else Some ([], v')) of
             None \<Rightarrow> None
           | Some (build, v'') \<Rightarrow>
               if v'' \<noteq> [] then None else Some (major, minor, patch, prerelease)))"

definition parse :: "string \<Rightarrow> (string \<times> string \<times> string \<times> string) option" where
  "parse v =
     (if take 1 v \<noteq> ''v'' then None
      else case parseInt (drop 1 v) of
        None \<Rightarrow> None
      | Some (major, v1) \<Rightarrow>
          if v1 = [] then Some (major, ''0'', ''0'', [])
          else if take 1 v1 \<noteq> ''.'' then None
          else case parseInt (drop 1 v1) of
            None \<Rightarrow> None
          | Some (minor, v2) \<Rightarrow>
              if v2 = [] then Some (major, minor, ''0'', [])
              else if take 1 v2 \<noteq> ''.'' then None
              else case parseInt (drop 1 v2) of
                None \<Rightarrow> None
              | Some (patch, v3) \<Rightarrow> parseTail major minor patch v3)"

definition natOfDigits :: "string \<Rightarrow> nat" where
  "natOfDigits v = foldl (\<lambda>n c. 10 * n + (of_char c - 48)) 0 v"

text \<open>
  The place of a version in the order: nothing for an invalid version, otherwise the three
  numbers, whether there is no prerelease, and the prerelease identifiers, each a number
  (first component false) or a word (first component true).
\<close>

type_synonym identKey = "bool \<times> nat \<times> string"

type_synonym versionKey = "(nat \<times> nat \<times> nat \<times> bool \<times> identKey list) option"

definition identKey :: "string \<Rightarrow> identKey" where
  "identKey ident = (if isNum ident then (False, natOfDigits ident, []) else (True, 0, ident))"

definition semverKey :: "string \<Rightarrow> versionKey" where
  "semverKey v =
     (case parse v of
        None \<Rightarrow> None
      | Some (major, minor, patch, prerelease) \<Rightarrow>
          Some (natOfDigits major, natOfDigits minor, natOfDigits patch, prerelease = [],
                if prerelease = [] then []
                else map identKey (splitSep (CHR ''.'') (drop 1 prerelease))))"

definition Compare :: "string \<Rightarrow> string \<Rightarrow> int" where
  "Compare v w =
     (if semverKey v < semverKey w then - 1
      else if semverKey w < semverKey v then 1
      else 0)"

text \<open>\<^verbatim>\<open>Version.V\<close> and \<^verbatim>\<open>Version.Before\<close>.\<close>

definition V :: "string \<Rightarrow> string" where
  "V v = ''v'' @ v"

definition Before :: "string \<Rightarrow> string \<Rightarrow> bool" where
  "Before v v2 = (Compare (V v) (V v2) < 0)"

text \<open>The place in the order of a version written without the \<^verbatim>\<open>v\<close>.\<close>

abbreviation versionKey :: "string \<Rightarrow> versionKey" where
  "versionKey v \<equiv> semverKey (V v)"

section \<open>The latest fixed version\<close>

text \<open>
  Modelled from the spec: \<^verbatim>\<open>latestFixedVersion\<close>, which the sources call in a test and do
  not hold. The spec (4.1): collect all fixed boundaries across all ranges, compare them in
  the order of semantic versions, return the maximum; return the empty string when no range
  has a fixed boundary. An event without a fixed boundary has the empty string in its place.
\<close>

text \<open>
  Modelled from the spec: for \<^verbatim>\<open>latestFixedVersion\<close>, which is not in the sources, the fixed
  boundaries of all events of all ranges, collected.
\<close>

definition fixedBoundaries :: "AffectsRange list \<Rightarrow> string list" where
  "fixedBoundaries ranges =
     concat (map (\<lambda>r. filter (\<lambda>fixed. fixed \<noteq> []) (map Fixed (Events r))) ranges)"

text \<open>The events of all ranges, whatever range each is in.\<close>

definition allEvents :: "AffectsRange list \<Rightarrow> RangeEvent list" where
  "allEvents ranges = concat (map Events ranges)"

text \<open>
  Modelled from the spec: for \<^verbatim>\<open>latestFixedVersion\<close>, which is not in the sources, the later of
  two fixed boundaries in the order of versions.
\<close>

definition later :: "string \<Rightarrow> string \<Rightarrow> string" where
  "later latest fixed = (if Before latest fixed then fixed else latest)"

text \<open>
  Modelled from the spec: \<^verbatim>\<open>latestFixedVersion\<close>, which is not in the sources, the maximum of the
  collected boundaries, or the empty string when there is none.
\<close>

definition latestFixedVersion :: "AffectsRange list \<Rightarrow> string" where
  "latestFixedVersion ranges =
     (case fixedBoundaries ranges of
        [] \<Rightarrow> []
      | fixed # rest \<Rightarrow> foldl later fixed rest)"

section \<open>The normalizer\<close>

text \<open>
  Modelled from the spec: \<^verbatim>\<open>New\<close> and the type of its result, which the sources use in a
  test and do not hold. The spec (3 and 4.2): a module index entry holds the module's path,
  its snapshot modified timestamp and an ordered list of tuples of a vulnerability ID, a
  modified timestamp and a latest fixed version; a vulnerability index entry holds an ID, a
  modified timestamp and an alias list; the alias index maps an alias to the IDs of the
  entries that declare it; the snapshot metadata is one modified timestamp. The result holds
  the input entries as well, as the expected value of the test in \<^verbatim>\<open>new_test.go\<close> does.
\<close>

text \<open>
  Modelled from the spec: for the result of \<^verbatim>\<open>New\<close>, which is not in the sources, a tuple of a
  module's list: the vulnerability ID, the modified timestamp and the latest fixed version.
\<close>

type_synonym ModuleVuln = "string \<times> Time \<times> string"

text \<open>
  Modelled from the spec: for the result of \<^verbatim>\<open>New\<close>, which is not in the sources, an entry of
  the vulnerability index: the ID, the modified timestamp and the alias list.
\<close>

type_synonym Vuln = "string \<times> Time \<times> string list"

text \<open>
  Modelled from the spec: for the result of \<^verbatim>\<open>New\<close>, which is not in the sources, an entry of
  the module index: the module's path, its snapshot modified timestamp and its list of tuples.
\<close>

record Module =
  ModulePath :: string
  ModuleModified :: Time
  ModuleVulns :: "ModuleVuln list"

text \<open>
  Modelled from the spec: the result of \<^verbatim>\<open>New\<close>, which is not in the sources: the snapshot
  timestamp of the database, the module index, the vulnerability index, the alias index and
  the entries.
\<close>

record Indexes =
  DBModified :: Time
  Modules :: "(string \<times> Module) list"
  Vulns :: "(string \<times> Vuln) list"
  AliasIndex :: "(string \<times> string list) list"
  Entries :: "Entry list"

text \<open>
  Modelled from the spec: for \<^verbatim>\<open>New\<close>, which is not in the sources, the by-ID index, built
  entry by entry; an entry whose ID is already a key is the construction error.
\<close>

fun addEntries :: "(string \<times> Entry) list \<Rightarrow> Entry list \<Rightarrow> error + (string \<times> Entry) list" where
  "addEntries byID [] = Inr byID"
| "addEntries byID (entry # entries) =
     (case map_of byID (ID entry) of
        Some _ \<Rightarrow> Inl (DuplicateID (ID entry))
      | None \<Rightarrow> addEntries (byID @ [(ID entry, entry)]) entries)"

text \<open>
  Modelled from the spec: for \<^verbatim>\<open>New\<close>, which is not in the sources, the maximum of a list of
  timestamps; of no timestamp, the zero time.
\<close>

definition maxTime :: "Time list \<Rightarrow> Time" where
  "maxTime ts = (case ts of [] \<Rightarrow> zeroTime | t # rest \<Rightarrow> foldl max t rest)"

text \<open>
  Modelled from the spec: for \<^verbatim>\<open>New\<close>, which is not in the sources, the upsert of a tuple
  into the list of a module: a tuple with the same ID is replaced, and a new one is appended.
\<close>

fun upsertVuln :: "ModuleVuln \<Rightarrow> ModuleVuln list \<Rightarrow> ModuleVuln list" where
  "upsertVuln v [] = [v]"
| "upsertVuln v (w # ws) = (if fst w = fst v then v # ws else w # upsertVuln v ws)"

text \<open>
  Modelled from the spec: for \<^verbatim>\<open>New\<close>, which is not in the sources, the upsert of a tuple
  into the module index under a module path, with a new list for a new path.
\<close>

fun upsertModule ::
    "string \<Rightarrow> ModuleVuln \<Rightarrow> (string \<times> ModuleVuln list) list \<Rightarrow> (string \<times> ModuleVuln list) list" where
  "upsertModule path v [] = [(path, [v])]"
| "upsertModule path v ((p, vs) # rest) =
     (if p = path then (p, upsertVuln v vs) # rest else (p, vs) # upsertModule path v rest)"

text \<open>
  Modelled from the spec: for \<^verbatim>\<open>New\<close>, which is not in the sources, the tuple of an entry
  for one affected package: the entry's ID, its modified timestamp and the latest fixed
  version of the package's ranges.
\<close>

definition addAffected ::
    "Entry \<Rightarrow> (string \<times> ModuleVuln list) list \<Rightarrow> Affected \<Rightarrow> (string \<times> ModuleVuln list) list" where
  "addAffected entry index affected =
     upsertModule (Name (Package affected))
       (ID entry, Modified entry, latestFixedVersion (Ranges affected)) index"

text \<open>
  Modelled from the spec: for \<^verbatim>\<open>New\<close>, which is not in the sources, the upserts of one
  entry, one for each affected package.
\<close>

definition addToModules ::
    "(string \<times> ModuleVuln list) list \<Rightarrow> Entry \<Rightarrow> (string \<times> ModuleVuln list) list" where
  "addToModules index entry = foldl (addAffected entry) index (Affected entry)"

text \<open>
  Modelled from the spec: for \<^verbatim>\<open>New\<close>, which is not in the sources, the module index entry
  of a path and its tuples: the list sorted by ID, with the maximum of its modified
  timestamps for the module.
\<close>

definition moduleEntry :: "string \<times> ModuleVuln list \<Rightarrow> string \<times> Module" where
  "moduleEntry = (\<lambda>(path, vs).
     (path, \<lparr>ModulePath = path, ModuleModified = maxTime (map (\<lambda>v. fst (snd v)) vs),
             ModuleVulns = sort_key fst vs\<rparr>))"

text \<open>
  Modelled from the spec: for \<^verbatim>\<open>New\<close>, which is not in the sources, the module index: the
  upserts of every entry, and the module index entry of every path.
\<close>

definition moduleIndex :: "Entry list \<Rightarrow> (string \<times> Module) list" where
  "moduleIndex entries = map moduleEntry (foldl addToModules [] entries)"

text \<open>
  Modelled from the spec: for \<^verbatim>\<open>New\<close>, which is not in the sources, the vulnerability index
  entry of an entry: its ID, modified timestamp and alias list, copied.
\<close>

definition vulnOf :: "Entry \<Rightarrow> Vuln" where
  "vulnOf entry = (ID entry, Modified entry, Aliases entry)"

text \<open>
  Modelled from the spec: for \<^verbatim>\<open>New\<close>, which is not in the sources, the IDs of the entries
  that have an alias.
\<close>

definition idsOfAlias :: "Entry list \<Rightarrow> string \<Rightarrow> string list" where
  "idsOfAlias entries alias = map ID (filter (\<lambda>entry. alias \<in> set (Aliases entry)) entries)"

text \<open>
  Modelled from the spec: for \<^verbatim>\<open>New\<close>, which is not in the sources, the alias index: the
  alias lists inverted, with no alias that no entry has.
\<close>

definition aliasIndex :: "Entry list \<Rightarrow> (string \<times> string list) list" where
  "aliasIndex entries =
     map (\<lambda>alias. (alias, idsOfAlias entries alias)) (remdups (concat (map Aliases entries)))"

text \<open>
  Modelled from the spec: for \<^verbatim>\<open>New\<close>, which is not in the sources, the three indexes and
  the snapshot timestamp, the maximum of the modified timestamps of all entries.
\<close>

definition buildIndexes :: "(string \<times> Entry) list \<Rightarrow> Entry list \<Rightarrow> Indexes" where
  "buildIndexes byID entries =
     \<lparr>DBModified = maxTime (map Modified entries),
      Modules = moduleIndex entries,
      Vulns = map (\<lambda>(eid, entry). (eid, vulnOf entry)) byID,
      AliasIndex = aliasIndex entries,
      Entries = entries\<rparr>"

text \<open>
  Modelled from the spec: \<^verbatim>\<open>New\<close>, which is not in the sources, the construction error or the
  indexes.
\<close>

definition New :: "Entry list \<Rightarrow> error + Indexes" where
  "New entries =
     (case addEntries [] entries of
        Inl err \<Rightarrow> Inl err
      | Inr byID \<Rightarrow> Inr (buildIndexes byID entries))"

text \<open>The modules that an entry affects: the names of its affected packages.\<close>

definition modulesOf :: "Entry \<Rightarrow> string list" where
  "modulesOf entry = map (\<lambda>affected. Name (Package affected)) (Affected entry)"

text \<open>
  Modelled from the spec: the materialized database of the indexes as the consistency check
  reads it, which the sources do not hold (the writing of the files, and \<^verbatim>\<open>Load\<close>). The
  spec (4.3 and 6): the index file gives each module its snapshot modified timestamp, the
  file of a module holds the full entries that the module lists, the files of the by-ID
  directory hold the entries, and the aliases file holds the alias index.
\<close>

text \<open>
  Modelled from the spec: for the materialization, which is not in the sources, the full
  entries of a list of IDs.
\<close>

definition entriesOf :: "Entry list \<Rightarrow> string list \<Rightarrow> Entry list" where
  "entriesOf entries ids = List.map_filter (\<lambda>eid. find (\<lambda>entry. ID entry = eid) entries) ids"

text \<open>
  Modelled from the spec: the materialization, which is not in the sources: the four maps
  that the consistency check reads, from the indexes.
\<close>

definition materialize :: "Indexes \<Rightarrow> Database" where
  "materialize ix =
     \<lparr>Index = map (\<lambda>(path, m). (path, ModuleModified m)) (Modules ix),
      EntriesByID = map (\<lambda>entry. (ID entry, entry)) (Entries ix),
      EntriesByModule =
        map (\<lambda>(path, m). (path, entriesOf (Entries ix) (map fst (ModuleVulns m)))) (Modules ix),
      IDsByAlias = AliasIndex ix\<rparr>"

section \<open>Example data\<close>

text \<open>
  The three entries of \<^verbatim>\<open>new_test.go\<close>, with their times in seconds from the zero time, and
  the database that holds them.
\<close>

definition jan1999 :: Time where "jan1999 = 63050745600"
definition jan2000 :: Time where "jan2000 = 63082281600"
definition jan2002 :: Time where "jan2002 = 63145440000"
definition jan2003 :: Time where "jan2003 = 63176976000"

definition testOSV1 :: Entry where
  "testOSV1 = \<lparr>ID = ''GO-1999-0001'', Published = jan1999, Modified = jan2000,
     Aliases = [''CVE-1999-1111''], Details = ''Some details'',
     Affected = [\<lparr>Package = \<lparr>Name = ''stdlib'', Ecosystem = ''Go''\<rparr>,
        Ranges = [\<lparr>Type = ''SEMVER'', Events =
          [\<lparr>Introduced = ''0'', Fixed = []\<rparr>, \<lparr>Introduced = [], Fixed = ''1.1.0''\<rparr>,
           \<lparr>Introduced = ''1.2.0'', Fixed = []\<rparr>, \<lparr>Introduced = [], Fixed = ''1.2.2''\<rparr>]\<rparr>],
        DatabaseSpecificURL = ''https://pkg.go.dev/vuln/GO-1999-0001'',
        Imports = [\<lparr>Path = ''package'', Symbols = [''Symbol'']\<rparr>]\<rparr>],
     References = [(''FIX'', ''https://example.com/cl/123'')]\<rparr>"

definition testOSV2 :: Entry where
  "testOSV2 = \<lparr>ID = ''GO-2000-0002'', Published = jan2000, Modified = jan2002,
     Aliases = [''CVE-1999-2222''], Details = ''Some details'',
     Affected = [\<lparr>Package = \<lparr>Name = ''example.com/module'', Ecosystem = ''Go''\<rparr>,
        Ranges = [\<lparr>Type = ''SEMVER'', Events =
          [\<lparr>Introduced = ''0'', Fixed = []\<rparr>, \<lparr>Introduced = [], Fixed = ''1.2.0''\<rparr>]\<rparr>],
        DatabaseSpecificURL = ''https://pkg.go.dev/vuln/GO-2000-0002'',
        Imports = [\<lparr>Path = ''example.com/module/package'', Symbols = [''Symbol'']\<rparr>]\<rparr>],
     References = [(''FIX'', ''https://example.com/cl/543'')]\<rparr>"

definition testOSV3 :: Entry where
  "testOSV3 = \<lparr>ID = ''GO-2000-0003'', Published = jan2000, Modified = jan2003,
     Aliases = [''CVE-1999-3333'', ''GHSA-xxxx-yyyy-zzzz''], Details = ''Some details'',
     Affected = [\<lparr>Package = \<lparr>Name = ''example.com/module'', Ecosystem = ''Go''\<rparr>,
        Ranges = [\<lparr>Type = ''SEMVER'', Events =
          [\<lparr>Introduced = ''0'', Fixed = []\<rparr>, \<lparr>Introduced = [], Fixed = ''1.1.0''\<rparr>]\<rparr>],
        DatabaseSpecificURL = ''https://pkg.go.dev/vuln/GO-2000-0003'',
        Imports = [\<lparr>Path = ''example.com/module/package'', Symbols = [''Symbol'']\<rparr>]\<rparr>],
     References = [(''FIX'', ''https://example.com/cl/000'')]\<rparr>"

definition validDB :: Database where
  "validDB = \<lparr>
     Index = [(''example.com/module'', jan2003), (''stdlib'', jan2000)],
     EntriesByID = [(''GO-1999-0001'', testOSV1), (''GO-2000-0002'', testOSV2),
                    (''GO-2000-0003'', testOSV3)],
     EntriesByModule = [(''example.com/module'', [testOSV2, testOSV3]), (''stdlib'', [testOSV1])],
     IDsByAlias = [(''CVE-1999-1111'', [''GO-1999-0001'']), (''CVE-1999-2222'', [''GO-2000-0002'']),
                   (''CVE-1999-3333'', [''GO-2000-0003'']),
                   (''GHSA-xxxx-yyyy-zzzz'', [''GO-2000-0003''])]\<rparr>"

text \<open>The same database with the index entry of one module left at an older time.\<close>

definition staleDB :: Database where
  "staleDB = validDB\<lparr>Index := [(''example.com/module'', jan2002), (''stdlib'', jan2000)]\<rparr>"

text \<open>
  An entry modified one day before the zero time (December 31 of the year 0, which Go
  reads from JSON), and two databases that hold it: one records the zero time for its
  module, the other the entry's own time.
\<close>

definition earlyEntry :: Entry where
  "earlyEntry = \<lparr>ID = ''GO-0000-0001'', Published = - 86400, Modified = - 86400,
     Aliases = [], Details = ''Some details'',
     Affected = [\<lparr>Package = \<lparr>Name = ''stdlib'', Ecosystem = ''Go''\<rparr>, Ranges = [],
        DatabaseSpecificURL = [], Imports = []\<rparr>],
     References = []\<rparr>"

definition earlyZeroDB :: Database where
  "earlyZeroDB = \<lparr>Index = [(''stdlib'', zeroTime)],
     EntriesByID = [(''GO-0000-0001'', earlyEntry)],
     EntriesByModule = [(''stdlib'', [earlyEntry])],
     IDsByAlias = []\<rparr>"

definition earlyDB :: Database where
  "earlyDB = earlyZeroDB\<lparr>Index := [(''stdlib'', - 86400)]\<rparr>"

text \<open>The valid database with the details of one entry changed in its module's copy only.\<close>

definition divergedDB :: Database where
  "divergedDB = validDB\<lparr>EntriesByModule :=
     [(''example.com/module'', [testOSV2, testOSV3\<lparr>Details := ''Other details''\<rparr>]),
      (''stdlib'', [testOSV1])]\<rparr>"

text \<open>The valid database with one module, and with one alias, present with an empty list.\<close>

definition emptyModuleDB :: Database where
  "emptyModuleDB = validDB\<lparr>EntriesByModule :=
     [(''example.com/module'', [testOSV2, testOSV3]), (''stdlib'', [])]\<rparr>"

definition emptyAliasDB :: Database where
  "emptyAliasDB = validDB\<lparr>IDsByAlias :=
     [(''CVE-1999-1111'', []), (''CVE-1999-2222'', [''GO-2000-0002'']),
      (''CVE-1999-3333'', [''GO-2000-0003'']), (''GHSA-xxxx-yyyy-zzzz'', [''GO-2000-0003''])]\<rparr>"

text \<open>
  Sample values of the parameters, for the examples only: the names the database uses on
  disk, an ID read from a file name by dropping its extension, and the unescaping of the Go
  module library, where \<^verbatim>\<open>!x\<close> stands for the capital letter \<^verbatim>\<open>X\<close> and a capital letter or
  a stray \<^verbatim>\<open>!\<close> is an error.
\<close>

fun unescapeFrom :: "bool \<Rightarrow> string \<Rightarrow> string option" where
  "unescapeFrom bang [] = (if bang then None else Some [])"
| "unescapeFrom bang (c # cs) =
     (if bang then
        (if CHR ''a'' \<le> c \<and> c \<le> CHR ''z''
         then map_option ((#) (char_of (of_char c - (32::nat)))) (unescapeFrom False cs)
         else None)
      else if c = CHR ''!'' then unescapeFrom True cs
      else if CHR ''A'' \<le> c \<and> c \<le> CHR ''Z'' then None
      else map_option ((#) c) (unescapeFrom False cs))"

definition sampleCollaborators :: Collaborators where
  "sampleCollaborators = \<lparr>
     idDirectory = ''ID'', indexFile = ''index.json'', aliasesFile = ''aliases.json'',
     GetGoIDFromFilename = (\<lambda>filename. TrimSuffix filename (Ext filename)),
     UnescapeModulePath = (\<lambda>path.
       case unescapeFrom False path of
         None \<Rightarrow> Inl ''invalid escaped module path''
       | Some unescaped \<Rightarrow> Inr unescaped)\<rparr>"

text \<open>The calls of a walk over the directory of the valid database.\<close>

definition sampleWalk :: "WalkCall list" where
  "sampleWalk =
     [Visit ''db'' ''db'' True,
      Visit ''db/ID'' ''ID'' True,
      Visit ''db/ID/GO-1999-0001.json'' ''GO-1999-0001.json'' False,
      Visit ''db/ID/GO-2000-0002.json'' ''GO-2000-0002.json'' False,
      Visit ''db/ID/GO-2000-0003.json'' ''GO-2000-0003.json'' False,
      Visit ''db/ID/index.json'' ''index.json'' False,
      Visit ''db/aliases.json'' ''aliases.json'' False,
      Visit ''db/example.com'' ''example.com'' True,
      Visit ''db/example.com/module.json'' ''module.json'' False,
      Visit ''db/favicon.ico'' ''favicon.ico'' False,
      Visit ''db/index.html'' ''index.html'' False,
      Visit ''db/index.json'' ''index.json'' False,
      Visit ''db/stdlib.json'' ''stdlib.json'' False]"

text \<open>
  Three more databases: the valid one with a module missing from the index, with a stale
  index time as well as an alias with an empty list, and with one alias more that the entry
  it lists does not have.
\<close>

definition shortIndexDB :: Database where
  "shortIndexDB = validDB\<lparr>Index := [(''stdlib'', jan2000)]\<rparr>"

definition twoFaultsDB :: Database where
  "twoFaultsDB = emptyAliasDB\<lparr>Index := [(''example.com/module'', jan2002), (''stdlib'', jan2000)]\<rparr>"

definition extraAliasDB :: Database where
  "extraAliasDB = validDB\<lparr>IDsByAlias :=
     [(''CVE-0000-0000'', [''GO-1999-0001'']), (''CVE-1999-1111'', [''GO-1999-0001'']),
      (''CVE-1999-2222'', [''GO-2000-0002'']), (''CVE-1999-3333'', [''GO-2000-0003'']),
      (''GHSA-xxxx-yyyy-zzzz'', [''GO-2000-0003''])]\<rparr>"

text \<open>
  The same walk with a file without extension in a subdirectory, and with a directory that
  cannot be read.
\<close>

definition readmeWalk :: "WalkCall list" where
  "readmeWalk =
     [Visit ''db'' ''db'' True,
      Visit ''db/example.com'' ''example.com'' True,
      Visit ''db/example.com/README'' ''README'' False,
      Visit ''db/example.com/module.json'' ''module.json'' False,
      Visit ''db/stray.txt'' ''stray.txt'' False]"

definition unreadableWalk :: "WalkCall list" where
  "unreadableWalk =
     [Visit ''db'' ''db'' True,
      Visit ''db/ID'' ''ID'' True,
      VisitError ''open db/ID: permission denied'',
      Visit ''db/stray.txt'' ''stray.txt'' False]"

text \<open>
  The calls of the walk over the same directory when it starts at \<^verbatim>\<open>db/\<close>: \<^verbatim>\<open>WalkDir\<close> calls
  the function with the root as it is given and, for what a directory holds, with the path
  of the directory and the name joined by \<^verbatim>\<open>filepath.Join\<close>, which cleans the path.
\<close>

definition slashWalk :: "WalkCall list" where
  "slashWalk =
     [Visit ''db/'' ''db'' True,
      Visit ''db/ID'' ''ID'' True,
      Visit ''db/ID/GO-1999-0001.json'' ''GO-1999-0001.json'' False,
      Visit ''db/ID/GO-2000-0002.json'' ''GO-2000-0002.json'' False,
      Visit ''db/ID/GO-2000-0003.json'' ''GO-2000-0003.json'' False,
      Visit ''db/ID/index.json'' ''index.json'' False,
      Visit ''db/aliases.json'' ''aliases.json'' False,
      Visit ''db/example.com'' ''example.com'' True,
      Visit ''db/example.com/module.json'' ''module.json'' False,
      Visit ''db/favicon.ico'' ''favicon.ico'' False,
      Visit ''db/index.html'' ''index.html'' False,
      Visit ''db/index.json'' ''index.json'' False,
      Visit ''db/stdlib.json'' ''stdlib.json'' False]"

text \<open>A database without any entry.\<close>

definition emptyDB :: Database where
  "emptyDB = \<lparr>Index = [], EntriesByID = [], EntriesByModule = [], IDsByAlias = []\<rparr>"

text \<open>The ranges of the test of \<^verbatim>\<open>latestFixedVersion\<close> in \<^verbatim>\<open>new_test.go\<close>, and the unsorted one sorted.\<close>

definition rangesNoFix :: "AffectsRange list" where
  "rangesNoFix = [\<lparr>Type = ''SEMVER'', Events = [\<lparr>Introduced = ''0'', Fixed = []\<rparr>]\<rparr>]"

definition rangesUnsorted :: "AffectsRange list" where
  "rangesUnsorted = [\<lparr>Type = ''SEMVER'', Events =
     [\<lparr>Introduced = [], Fixed = ''1.0.0''\<rparr>, \<lparr>Introduced = ''0'', Fixed = []\<rparr>,
      \<lparr>Introduced = [], Fixed = ''0.1.0''\<rparr>, \<lparr>Introduced = ''0.5.0'', Fixed = []\<rparr>]\<rparr>]"

definition rangesSorted :: "AffectsRange list" where
  "rangesSorted = [\<lparr>Type = ''SEMVER'', Events =
     [\<lparr>Introduced = ''0'', Fixed = []\<rparr>, \<lparr>Introduced = [], Fixed = ''0.1.0''\<rparr>,
      \<lparr>Introduced = ''0.5.0'', Fixed = []\<rparr>, \<lparr>Introduced = [], Fixed = ''1.0.0''\<rparr>]\<rparr>]"

definition rangesMultiple :: "AffectsRange list" where
  "rangesMultiple =
     [\<lparr>Type = ''SEMVER'', Events =
        [\<lparr>Introduced = ''0'', Fixed = []\<rparr>, \<lparr>Introduced = [], Fixed = ''0.1.0''\<rparr>]\<rparr>,
      \<lparr>Type = ''SEMVER'', Events =
        [\<lparr>Introduced = ''0'', Fixed = []\<rparr>, \<lparr>Introduced = [], Fixed = ''0.2.0''\<rparr>]\<rparr>]"

definition rangesPseudoversion :: "AffectsRange list" where
  "rangesPseudoversion = [\<lparr>Type = ''SEMVER'', Events =
     [\<lparr>Introduced = ''0'', Fixed = []\<rparr>,
      \<lparr>Introduced = [], Fixed = ''0.0.0-20220824120805-abc''\<rparr>,
      \<lparr>Introduced = ''0.0.0-20230824120805-efg'', Fixed = []\<rparr>,
      \<lparr>Introduced = [], Fixed = ''0.0.0-20240824120805-hij''\<rparr>]\<rparr>]"

text \<open>
  The indexes that \<^verbatim>\<open>New\<close> builds from the three entries, which are the expected value of
  the test in \<^verbatim>\<open>new_test.go\<close> with the alias index and the times of the modules added; the
  database that they materialize to; the indexes of the entry modified before the zero
  time; and a list in which the third entry has the ID of the first.
\<close>

definition normalized :: Indexes where
  "normalized = \<lparr>
     DBModified = jan2003,
     Modules =
       [(''stdlib'', \<lparr>ModulePath = ''stdlib'', ModuleModified = jan2000,
          ModuleVulns = [(''GO-1999-0001'', jan2000, ''1.2.2'')]\<rparr>),
        (''example.com/module'', \<lparr>ModulePath = ''example.com/module'', ModuleModified = jan2003,
          ModuleVulns = [(''GO-2000-0002'', jan2002, ''1.2.0''),
                         (''GO-2000-0003'', jan2003, ''1.1.0'')]\<rparr>)],
     Vulns =
       [(''GO-1999-0001'', (''GO-1999-0001'', jan2000, [''CVE-1999-1111''])),
        (''GO-2000-0002'', (''GO-2000-0002'', jan2002, [''CVE-1999-2222''])),
        (''GO-2000-0003'', (''GO-2000-0003'', jan2003, [''CVE-1999-3333'', ''GHSA-xxxx-yyyy-zzzz'']))],
     AliasIndex =
       [(''CVE-1999-1111'', [''GO-1999-0001'']), (''CVE-1999-2222'', [''GO-2000-0002'']),
        (''CVE-1999-3333'', [''GO-2000-0003'']), (''GHSA-xxxx-yyyy-zzzz'', [''GO-2000-0003''])],
     Entries = [testOSV1, testOSV2, testOSV3]\<rparr>"



definition duplicateEntries :: "Entry list" where
  "duplicateEntries = [testOSV1, testOSV2, testOSV3\<lparr>ID := ''GO-1999-0001''\<rparr>]"

section \<open>Properties of the loops\<close>

lemma forEach_OK_iff: "forEach body xs = OK \<longleftrightarrow> (\<forall>x \<in> set xs. body x = OK)"
  by (induction xs) (auto split: sum.splits)

lemma forEach_first_error:
  "\<forall>y \<in> set pre. body y = OK \<Longrightarrow> body x = Inl e \<Longrightarrow> forEach body (pre @ x # post) = Inl e"
  by (induction pre) (auto split: sum.splits)

lemma forEach_error_from:
  "forEach body xs = Inl e \<Longrightarrow> \<exists>x \<in> set xs. body x = Inl e"
  by (induction xs) (auto split: sum.splits)

lemma max_step: "(if After t w then t else w) = max w t"
  by (simp add: After_def max_def)

lemma checkEntries_Inr_iff:
  "checkEntries d m w es = Inr w' \<longleftrightarrow>
     (\<forall>e \<in> set es. map_of (EntriesByID d) (ID e) = Some e) \<and>
     w' = Max (insert w (Modified ` set es))"
proof (induction es arbitrary: w)
  case Nil
  then show ?case by auto
next
  case (Cons e es)
  have m: "Max (insert (max w (Modified e)) (Modified ` set es))
         = Max (insert w (insert (Modified e) (Modified ` set es)))"
    by (cases "set es = {}") (simp_all add: max.assoc)
  show ?case
    using Cons.IH [of "max w (Modified e)"] m
    by (auto simp: max_step Let_def split: option.splits)
qed

lemma checkEntries_Inl_iff:
  "(\<exists>x. checkEntries d m w es = Inl x) \<longleftrightarrow>
     \<not> (\<forall>e \<in> set es. map_of (EntriesByID d) (ID e) = Some e)"
proof (cases "checkEntries d m w es")
  case (Inl a)
  then show ?thesis
    using checkEntries_Inr_iff [of d m w es] by auto
next
  case (Inr b)
  then show ?thesis
    using checkEntries_Inr_iff [of d m w es b] by auto
qed

lemma checkModule_OK_iff:
  "checkModule d (m, t) = OK \<longleftrightarrow>
     (\<exists>es. map_of (EntriesByModule d) m = Some es \<and> es \<noteq> [] \<and>
        (\<forall>e \<in> set es. map_of (EntriesByID d) (ID e) = Some e) \<and>
        t = Max (insert zeroTime (Modified ` set es)))"
proof (cases "map_of (EntriesByModule d) m")
  case None
  then show ?thesis by (simp add: checkModule_def)
next
  case (Some es)
  show ?thesis
  proof (cases "checkEntries d m zeroTime es")
    case (Inl x)
    then have "\<not> (\<forall>e \<in> set es. map_of (EntriesByID d) (ID e) = Some e)"
      using checkEntries_Inl_iff [of d m zeroTime es] by blast
    with Some Inl show ?thesis by (auto simp: checkModule_def)
  next
    case (Inr w')
    with Some show ?thesis
      using checkEntries_Inr_iff [of d m zeroTime es w']
      by (auto simp: checkModule_def)
  qed
qed

lemma checkAffected_OK_iff:
  "checkAffected d eid a = OK \<longleftrightarrow>
     (\<exists>es. map_of (EntriesByModule d) (Name (Package a)) = Some es \<and> es \<noteq> [] \<and>
        (\<exists>g \<in> set es. ID g = eid))"
  by (auto simp: checkAffected_def Let_def list_ex_iff split: option.splits)

lemma checkAlias_OK_iff:
  "checkAlias d eid entry alias = OK \<longleftrightarrow>
     (\<exists>ids. map_of (IDsByAlias d) alias = Some ids \<and> ids \<noteq> [] \<and> eid \<in> set ids)"
  by (auto simp: checkAlias_def list_ex_iff split: option.splits)

lemma checkGoID_OK_iff:
  "checkGoID d alias goID = OK \<longleftrightarrow>
     (\<exists>entry. map_of (EntriesByID d) goID = Some entry \<and> alias \<in> set (Aliases entry))"
  by (auto simp: checkGoID_def split: option.splits)

lemma seq_OK_iff:
  "(case r of Inl e \<Rightarrow> Inl e | Inr _ \<Rightarrow> k) = OK \<longleftrightarrow> r = OK \<and> k = OK"
  by (cases r) auto

lemma checkID_OK_iff:
  "checkID d (eid, entry) = OK \<longleftrightarrow>
     (\<forall>a \<in> set (Affected entry). checkAffected d eid a = OK) \<and>
     (\<forall>alias \<in> set (Aliases entry). checkAlias d eid entry alias = OK)"
  by (simp add: checkID_def seq_OK_iff forEach_OK_iff)

lemma checkInternalConsistency_OK_iff:
  "checkInternalConsistency d = OK \<longleftrightarrow>
     length (Index d) = length (EntriesByModule d) \<and>
     (\<forall>x \<in> set (Index d). checkModule d x = OK) \<and>
     (\<forall>x \<in> set (EntriesByID d). checkID d x = OK) \<and>
     (\<forall>x \<in> set (IDsByAlias d). checkAliasIDs d x = OK)"
  by (simp add: checkInternalConsistency_def seq_OK_iff forEach_OK_iff)

lemma checkInternalConsistency_fails:
  "checkInternalConsistency d \<noteq> OK \<Longrightarrow> \<exists>e. checkInternalConsistency d = Inl e"
  by (cases "checkInternalConsistency d") auto

text \<open>
  The time that the check compares the recorded time of a module with: the maximum of the
  zero time and the modified times of the module's entries, which is the maximum of these
  times as soon as one of them is not before the zero time.
\<close>

lemma accepted_module_time:
  assumes ok: "checkInternalConsistency d = OK"
    and ix: "(module, modified) \<in> set (Index d)"
  shows "\<exists>entries. map_of (EntriesByModule d) module = Some entries \<and> entries \<noteq> [] \<and>
           modified = Max (insert zeroTime (Modified ` set entries)) \<and>
           ((\<exists>entry \<in> set entries. zeroTime \<le> Modified entry) \<longrightarrow>
              modified = Max (Modified ` set entries))"
proof -
  from ok ix have "checkModule d (module, modified) = OK"
    by (simp add: checkInternalConsistency_OK_iff)
  then obtain es where es: "map_of (EntriesByModule d) module = Some es" "es \<noteq> []"
      "modified = Max (insert zeroTime (Modified ` set es))"
    by (auto simp: checkModule_OK_iff)
  have "Max (insert zeroTime (Modified ` set es)) = Max (Modified ` set es)"
    if "\<exists>entry \<in> set es. zeroTime \<le> Modified entry"
  proof -
    from that obtain entry where e: "entry \<in> set es" "zeroTime \<le> Modified entry" by blast
    then have "Modified entry \<le> Max (Modified ` set es)" by simp
    with e have "zeroTime \<le> Max (Modified ` set es)" by linarith
    with es(2) show ?thesis by (simp add: max_def)
  qed
  with es show ?thesis by auto
qed

lemma other_module_time_fails:
  assumes ix: "(module, modified) \<in> set (Index d)"
    and es: "map_of (EntriesByModule d) module = Some entries"
    and ne: "modified \<noteq> Max (insert zeroTime (Modified ` set entries))"
  shows "\<exists>e. checkInternalConsistency d = Inl e"
proof -
  from es ne have "checkModule d (module, modified) \<noteq> OK"
    by (auto simp: checkModule_OK_iff)
  with ix have "checkInternalConsistency d \<noteq> OK"
    by (auto simp: checkInternalConsistency_OK_iff)
  then show ?thesis
    by (rule checkInternalConsistency_fails)
qed

lemma other_module_time_error:
  assumes es: "map_of (EntriesByModule d) module = Some entries" "entries \<noteq> []"
    and ids: "\<forall>entry \<in> set entries. map_of (EntriesByID d) (ID entry) = Some entry"
    and ne: "modified \<noteq> Max (insert zeroTime (Modified ` set entries))"
  shows "checkModule d (module, modified) =
           Inl (IncorrectModified module (Max (insert zeroTime (Modified ` set entries))) modified)"
proof -
  from ids have "checkEntries d module zeroTime entries
      = Inr (Max (insert zeroTime (Modified ` set entries)))"
    by (simp add: checkEntries_Inr_iff)
  with es ne show ?thesis
    by (simp add: checkModule_def)
qed

lemma checkEntries_first_mismatch:
  "\<forall>p \<in> set pre. map_of (EntriesByID d) (ID p) = Some p \<Longrightarrow>
   map_of (EntriesByID d) (ID entry) \<noteq> Some entry \<Longrightarrow>
   checkEntries d m w (pre @ entry # post) =
     (case map_of (EntriesByID d) (ID entry) of
        None \<Rightarrow> Inl (NoAdvisoryForID (ID entry) m)
      | Some entryByID \<Rightarrow> Inl (InconsistentOSV (ID entry)))"
  by (induction pre arbitrary: w) (auto simp: Let_def split: option.splits)

lemma index_keys_are_module_keys:
  assumes ok: "checkInternalConsistency d = OK"
    and di: "distinct (map fst (Index d))" and dm: "distinct (map fst (EntriesByModule d))"
  shows "fst ` set (Index d) = fst ` set (EntriesByModule d)"
proof -
  have sub: "fst ` set (Index d) \<subseteq> fst ` set (EntriesByModule d)"
  proof
    fix m assume "m \<in> fst ` set (Index d)"
    then obtain t where "(m, t) \<in> set (Index d)" by auto
    with ok have "checkModule d (m, t) = OK"
      by (simp add: checkInternalConsistency_OK_iff)
    then obtain es where "map_of (EntriesByModule d) m = Some es"
      by (auto simp: checkModule_OK_iff)
    then have "(m, es) \<in> set (EntriesByModule d)" by (rule map_of_SomeD)
    then show "m \<in> fst ` set (EntriesByModule d)" by force
  qed
  from ok have "length (Index d) = length (EntriesByModule d)"
    by (simp add: checkInternalConsistency_OK_iff)
  with di dm have "card (fst ` set (Index d)) = card (fst ` set (EntriesByModule d))"
    by (metis distinct_card length_map set_map)
  with sub show ?thesis
    by (simp add: card_subset_eq)
qed

lemma accepted_key_is_id:
  assumes ok: "checkInternalConsistency d = OK"
    and di: "distinct (map fst (Index d))" and dm: "distinct (map fst (EntriesByModule d))"
    and de: "distinct (map fst (EntriesByID d))"
    and e: "(eid, entry) \<in> set (EntriesByID d)" and a: "Affected entry \<noteq> []"
  shows "ID entry = eid"
proof -
  from a obtain af where af: "af \<in> set (Affected entry)"
    by (cases "Affected entry") auto
  from ok e have "checkID d (eid, entry) = OK"
    by (simp add: checkInternalConsistency_OK_iff)
  with af have "checkAffected d eid af = OK"
    by (simp add: checkID_OK_iff)
  then obtain es g where es: "map_of (EntriesByModule d) (Name (Package af)) = Some es"
      "g \<in> set es" "ID g = eid"
    by (auto simp: checkAffected_OK_iff)
  from es(1) have "(Name (Package af), es) \<in> set (EntriesByModule d)" by (rule map_of_SomeD)
  then have "Name (Package af) \<in> fst ` set (EntriesByModule d)" by force
  with index_keys_are_module_keys [OF ok di dm]
  have "Name (Package af) \<in> fst ` set (Index d)" by simp
  then obtain t where "(Name (Package af), t) \<in> set (Index d)" by auto
  with ok have "checkModule d (Name (Package af), t) = OK"
    by (simp add: checkInternalConsistency_OK_iff)
  with es(1,2) have "map_of (EntriesByID d) (ID g) = Some g"
    by (auto simp: checkModule_OK_iff)
  moreover from de e have "map_of (EntriesByID d) eid = Some entry"
    by (simp add: map_of_eq_Some_iff)
  ultimately have "g = entry" using es(3) by simp
  with es(3) show ?thesis by simp
qed

section \<open>Properties of the file pass\<close>


lemma checkFile_skipped:
  "Dir path = dbPath \<and> isIndexOrWebFile c fname (Ext fname) \<Longrightarrow>
   checkFile c d dbPath (Visit path fname False) = OK"
  by (simp add: Let_def)



lemma checkFile_id:
  "\<not> (Dir path = dbPath \<and> isIndexOrWebFile c fname (Ext fname)) \<Longrightarrow> Ext fname = ''.json'' \<Longrightarrow>
   Dir path = Join [dbPath, idDirectory c] \<Longrightarrow>
   checkFile c d dbPath (Visit path fname False) =
     (if fname = indexFile c then OK
      else case map_of (EntriesByID d) (GetGoIDFromFilename c fname) of
             None \<Rightarrow> Inl (UnexpectedID (GetGoIDFromFilename c fname))
           | Some _ \<Rightarrow> OK)"
  by (auto simp: Let_def)

lemma checkFile_emptyDB:
  "checkFile c emptyDB dbPath (Visit path fname False) = OK \<longleftrightarrow>
     (Dir path = dbPath \<and> isIndexOrWebFile c fname (Ext fname)) \<or>
     (Ext fname = ''.json'' \<and> Dir path = Join [dbPath, idDirectory c] \<and> fname = indexFile c)"
  by (auto simp: Let_def emptyDB_def split: sum.splits)

declare checkFile.simps [simp del]



section \<open>Properties of the latest fixed version\<close>

lemma Before_iff: "Before a b \<longleftrightarrow> versionKey a < versionKey b"
  by (simp add: Before_def Compare_def)

lemma Compare_0_iff: "Compare v w = 0 \<longleftrightarrow> semverKey v = semverKey w"
  by (auto simp: Compare_def)

lemma later_cases: "later a b = a \<or> later a b = b"
  by (simp add: later_def)

lemma later_key: "versionKey (later a b) = max (versionKey a) (versionKey b)"
proof (cases "versionKey a < versionKey b")
  case True
  then have "versionKey a \<le> versionKey b" by (rule less_imp_le)
  with True show ?thesis by (simp add: later_def Before_iff max.absorb2)
next
  case False
  then have "versionKey b \<le> versionKey a" by (simp add: not_less)
  with False show ?thesis by (simp add: later_def Before_iff max.absorb1)
qed

lemma foldl_later_in: "foldl later x xs \<in> set (x # xs)"
proof (induction xs arbitrary: x)
  case Nil
  then show ?case by simp
next
  case (Cons y ys)
  then show ?case using later_cases [of x y] by (metis foldl_Cons insert_iff list.simps(15))
qed

lemma foldl_later_key:
  "versionKey (foldl later x xs) = Max (versionKey ` set (x # xs))"
proof (induction xs arbitrary: x)
  case Nil
  then show ?case by simp
next
  case (Cons y ys)
  have "versionKey (foldl later (later x y) ys) = Max (versionKey ` set (later x y # ys))"
    by (rule Cons.IH)
  also have "\<dots> = Max (insert (max (versionKey x) (versionKey y)) (versionKey ` set ys))"
    by (simp add: later_key)
  also have "\<dots> = Max (versionKey ` set (x # y # ys))"
    by (cases "set ys = {}") (simp_all add: max.assoc)
  finally show ?case by simp
qed

lemma fixedBoundaries_eq:
  "fixedBoundaries ranges = filter (\<lambda>fixed. fixed \<noteq> []) (map Fixed (allEvents ranges))"
  by (induction ranges) (simp_all add: fixedBoundaries_def allEvents_def)

lemma set_fixedBoundaries:
  "set (fixedBoundaries ranges) = {fixed \<in> Fixed ` set (allEvents ranges). fixed \<noteq> []}"
  by (auto simp: fixedBoundaries_eq)

lemma set_allEvents: "set (allEvents ranges) = (\<Union>r \<in> set ranges. set (Events r))"
  by (simp add: allEvents_def)

lemma latestFixedVersion_none:
  "fixedBoundaries ranges = [] \<Longrightarrow> latestFixedVersion ranges = []"
  by (simp add: latestFixedVersion_def)

lemma latestFixedVersion_in:
  "fixedBoundaries ranges \<noteq> [] \<Longrightarrow> latestFixedVersion ranges \<in> set (fixedBoundaries ranges)"
  using foldl_later_in
  by (cases "fixedBoundaries ranges") (simp_all add: latestFixedVersion_def)

lemma latestFixedVersion_key:
  "fixedBoundaries ranges \<noteq> [] \<Longrightarrow>
   versionKey (latestFixedVersion ranges) = Max (versionKey ` set (fixedBoundaries ranges))"
  using foldl_later_key
  by (cases "fixedBoundaries ranges") (simp_all add: latestFixedVersion_def)

lemma latestFixedVersion_greatest:
  "fixed \<in> set (fixedBoundaries ranges) \<Longrightarrow> \<not> Before (latestFixedVersion ranges) fixed"
proof -
  assume f: "fixed \<in> set (fixedBoundaries ranges)"
  then have "fixedBoundaries ranges \<noteq> []" by auto
  then have "versionKey (latestFixedVersion ranges) = Max (versionKey ` set (fixedBoundaries ranges))"
    by (rule latestFixedVersion_key)
  moreover from f have "versionKey fixed \<le> Max (versionKey ` set (fixedBoundaries ranges))"
    by simp
  ultimately show ?thesis by (simp add: Before_iff)
qed

lemma latestFixedVersion_same_key:
  assumes "set (fixedBoundaries ranges') = set (fixedBoundaries ranges)"
  shows "versionKey (latestFixedVersion ranges') = versionKey (latestFixedVersion ranges)"
proof (cases "fixedBoundaries ranges = []")
  case True
  with assms have "fixedBoundaries ranges' = []" by simp
  with True show ?thesis by (simp add: latestFixedVersion_none)
next
  case False
  with assms have "fixedBoundaries ranges' \<noteq> []" by auto
  with False assms show ?thesis by (simp add: latestFixedVersion_key)
qed

section \<open>Properties of the normalizer\<close>

lemma addEntries_Inr_iff:
  "addEntries byID entries = Inr r \<longleftrightarrow>
     distinct (map ID entries) \<and> ID ` set entries \<inter> fst ` set byID = {} \<and>
     r = byID @ map (\<lambda>entry. (ID entry, entry)) entries"
proof (induction entries arbitrary: byID)
  case Nil
  then show ?case by auto
next
  case (Cons entry entries)
  show ?case
  proof (cases "map_of byID (ID entry)")
    case None
    then have "ID entry \<notin> fst ` set byID"
      by (simp add: map_of_eq_None_iff)
    with None show ?thesis
      using Cons.IH [of "byID @ [(ID entry, entry)]"] by auto
  next
    case (Some other)
    then have "(ID entry, other) \<in> set byID"
      by (rule map_of_SomeD)
    then have "ID entry \<in> fst ` set byID"
      by force
    with Some show ?thesis by auto
  qed
qed

lemma addEntries_Inl:
  "addEntries byID entries = Inl err \<Longrightarrow>
   \<exists>pre entry post. entries = pre @ entry # post \<and> err = DuplicateID (ID entry) \<and>
     ID entry \<in> fst ` set byID \<union> ID ` set pre"
proof (induction entries arbitrary: byID)
  case Nil
  then show ?case by simp
next
  case (Cons entry entries)
  show ?case
  proof (cases "map_of byID (ID entry)")
    case None
    with Cons.prems have "addEntries (byID @ [(ID entry, entry)]) entries = Inl err"
      by simp
    from Cons.IH [OF this]
    obtain pre e post where p: "entries = pre @ e # post" "err = DuplicateID (ID e)"
        "ID e \<in> fst ` set (byID @ [(ID entry, entry)]) \<union> ID ` set pre"
      by blast
    then have "entry # entries = (entry # pre) @ e # post \<and> err = DuplicateID (ID e) \<and>
        ID e \<in> fst ` set byID \<union> ID ` set (entry # pre)"
      by auto
    then show ?thesis by blast
  next
    case (Some other)
    then have "(ID entry, other) \<in> set byID"
      by (rule map_of_SomeD)
    then have "ID entry \<in> fst ` set byID"
      by force
    moreover from Some Cons.prems have "err = DuplicateID (ID entry)" by simp
    ultimately have "entry # entries = [] @ entry # entries \<and> err = DuplicateID (ID entry) \<and>
        ID entry \<in> fst ` set byID \<union> ID ` set []"
      by simp
    then show ?thesis by blast
  qed
qed

lemma New_distinct:
  "distinct (map ID entries) \<Longrightarrow>
   New entries = Inr (buildIndexes (map (\<lambda>entry. (ID entry, entry)) entries) entries)"
proof -
  assume "distinct (map ID entries)"
  then have "addEntries [] entries = Inr (map (\<lambda>entry. (ID entry, entry)) entries)"
    by (simp add: addEntries_Inr_iff)
  then show ?thesis by (simp add: New_def)
qed

lemma New_Inl: "addEntries [] entries = Inl err \<Longrightarrow> New entries = Inl err"
  by (simp add: New_def)

lemma New_Inr:
  "New entries = Inr ix \<Longrightarrow>
   \<exists>byID. addEntries [] entries = Inr byID \<and> ix = buildIndexes byID entries"
  by (cases "addEntries [] entries") (simp_all add: New_def)

lemma buildIndexes_fields:
  "Vulns (buildIndexes byID entries) = map (\<lambda>(eid, entry). (eid, vulnOf entry)) byID"
  "Entries (buildIndexes byID entries) = entries"
  "Modules (buildIndexes byID entries) = moduleIndex entries"
  "AliasIndex (buildIndexes byID entries) = aliasIndex entries"
  "DBModified (buildIndexes byID entries) = maxTime (map Modified entries)"
  by (simp_all add: buildIndexes_def)

lemma New_duplicate:
  "addEntries [] entries = Inl err \<Longrightarrow>
   \<exists>pre entry post. entries = pre @ entry # post \<and> err = DuplicateID (ID entry) \<and>
     ID entry \<in> ID ` set pre"
  using addEntries_Inl [of "[]" entries err] by simp

lemma map_of_graph:
  "map_of (map (\<lambda>k. (k, f k)) ks) k = (if k \<in> set ks then Some (f k) else None)"
  by (induction ks) auto

lemma set_idsOfAlias:
  "set (idsOfAlias entries a) = ID ` {entry \<in> set entries. a \<in> set (Aliases entry)}"
  by (simp add: idsOfAlias_def)

lemma lookup_by_id:
  "distinct (map ID entries) \<Longrightarrow> entry \<in> set entries \<Longrightarrow>
   map_of (map (\<lambda>entry. (ID entry, entry)) entries) (ID entry) = Some entry"
  by (induction entries) (auto simp: image_iff)

lemma maxTime_Max: "ts \<noteq> [] \<Longrightarrow> maxTime ts = Max (set ts)"
proof (cases ts)
  case Nil
  assume "ts \<noteq> []"
  with Nil show ?thesis by simp
next
  case (Cons t rest)
  have "foldl max t rest = fold max rest t"
    by (simp add: foldl_conv_fold max.commute)
  with Cons show ?thesis
    by (simp add: maxTime_def Max.set_eq_fold [symmetric])
qed

lemma upsertVuln_facts:
  "upsertVuln v vs \<noteq> []"
  "set (upsertVuln v vs) \<subseteq> insert v (set vs)"
  "fst ` set (upsertVuln v vs) = insert (fst v) (fst ` set vs)"
  by (induction vs) auto

lemma upsertModule_keys:
  "map fst (upsertModule path v index) =
     (if path \<in> fst ` set index then map fst index else map fst index @ [path])"
  by (induction index) force+

lemma upsertModule_lookup:
  "map_of (upsertModule path v index) p =
     (if p = path
      then Some (case map_of index path of None \<Rightarrow> [v] | Some vs \<Rightarrow> upsertVuln v vs)
      else map_of index p)"
  by (induction index) auto

lemma addToModules_flat:
  "foldl addToModules index entries =
     foldl (\<lambda>ix c. upsertModule (fst c) (snd c) ix) index
       (concat (map (\<lambda>entry. map (\<lambda>affected.
          (Name (Package affected),
           (ID entry, Modified entry, latestFixedVersion (Ranges affected)))) (Affected entry))
        entries))"
proof (induction entries arbitrary: index)
  case Nil
  show ?case by simp
next
  case (Cons entry entries)
  have "foldl (addAffected entry) index as =
      foldl (\<lambda>ix c. upsertModule (fst c) (snd c) ix) index
        (map (\<lambda>affected. (Name (Package affected),
           (ID entry, Modified entry, latestFixedVersion (Ranges affected)))) as)" for as
    by (induction as arbitrary: index) (simp_all add: addAffected_def)
  with Cons.IH show ?case
    by (simp add: addToModules_def)
qed

lemma upserts_invariant:
  "distinct (map fst (foldl (\<lambda>ix c. upsertModule (fst c) (snd c) ix) [] cs)) \<and>
   fst ` set (foldl (\<lambda>ix c. upsertModule (fst c) (snd c) ix) [] cs) = fst ` set cs \<and>
   (\<forall>p vs. map_of (foldl (\<lambda>ix c. upsertModule (fst c) (snd c) ix) [] cs) p = Some vs \<longrightarrow>
      vs \<noteq> [] \<and> set vs \<subseteq> snd ` {c \<in> set cs. fst c = p} \<and>
      fst ` set vs = fst ` snd ` {c \<in> set cs. fst c = p})"
proof (induction cs rule: rev_induct)
  case Nil
  show ?case by simp
next
  case (snoc c cs)
  let ?raw = "foldl (\<lambda>ix c. upsertModule (fst c) (snd c) ix) [] cs"
  let ?new = "upsertModule (fst c) (snd c) ?raw"
  have step: "foldl (\<lambda>ix c. upsertModule (fst c) (snd c) ix) [] (cs @ [c]) = ?new"
    by simp
  note d = snoc [THEN conjunct1]
  note k = snoc [THEN conjunct2, THEN conjunct1]
  note l = snoc [THEN conjunct2, THEN conjunct2, rule_format]
  have keys: "fst ` set ?new = insert (fst c) (fst ` set ?raw)"
  proof -
    have "fst ` set ?new = set (map fst ?new)" by simp
    also have "\<dots> = insert (fst c) (fst ` set ?raw)"
      unfolding upsertModule_keys by auto
    finally show ?thesis .
  qed
  have d': "distinct (map fst ?new)"
    unfolding upsertModule_keys using d by simp
  have k': "fst ` set ?new = fst ` set (cs @ [c])"
    unfolding keys k by simp
  have l': "vs \<noteq> [] \<and> set vs \<subseteq> snd ` {x \<in> set (cs @ [c]). fst x = p} \<and>
        fst ` set vs = fst ` snd ` {x \<in> set (cs @ [c]). fst x = p}"
    if m: "map_of ?new p = Some vs" for p vs
  proof (cases "p = fst c")
    case False
    with m have "map_of ?raw p = Some vs"
      by (simp add: upsertModule_lookup)
    note r = l [OF this]
    from r [THEN conjunct1] r [THEN conjunct2, THEN conjunct1] r [THEN conjunct2, THEN conjunct2]
    have "vs \<noteq> []" "set vs \<subseteq> snd ` {c \<in> set cs. fst c = p}"
        "fst ` set vs = fst ` snd ` {c \<in> set cs. fst c = p}" .
    moreover from False have "{x \<in> set (cs @ [c]). fst x = p} = {x \<in> set cs. fst x = p}"
      by auto
    ultimately show ?thesis by simp
  next
    case True
    have s: "{x \<in> set (cs @ [c]). fst x = fst c} = insert c {x \<in> set cs. fst x = fst c}"
      by auto
    show ?thesis
    proof (cases "map_of ?raw (fst c)")
      case None
      then have "fst c \<notin> fst ` set ?raw"
        by (simp add: map_of_eq_None_iff)
      with k have "fst c \<notin> fst ` set cs" by simp
      then have e: "{x \<in> set cs. fst x = fst c} = {}" by (auto simp: image_iff)
      from m True None have "vs = [snd c]"
        by (simp add: upsertModule_lookup)
      then show ?thesis unfolding True s e by simp
    next
      case (Some old)
      note o1 = l [OF Some, THEN conjunct2, THEN conjunct1]
      note o2 = l [OF Some, THEN conjunct2, THEN conjunct2]
      from m True Some have vs: "vs = upsertVuln (snd c) old"
        by (simp add: upsertModule_lookup)
      have "vs \<noteq> []"
        unfolding vs by (rule upsertVuln_facts(1))
      moreover have "set vs \<subseteq> snd ` {x \<in> set (cs @ [c]). fst x = p}"
      proof -
        have "set vs \<subseteq> insert (snd c) (set old)"
          unfolding vs by (rule upsertVuln_facts(2))
        also have "\<dots> \<subseteq> insert (snd c) (snd ` {x \<in> set cs. fst x = fst c})"
          using o1 by (rule insert_mono)
        finally show ?thesis unfolding True s by simp
      qed
      moreover have "fst ` set vs = fst ` snd ` {x \<in> set (cs @ [c]). fst x = p}"
        unfolding vs True s upsertVuln_facts(3) o2 by simp
      ultimately show ?thesis by (intro conjI)
    qed
  qed
  show ?case
    unfolding step
  proof (intro conjI allI impI)
    show "distinct (map fst ?new)" by (rule d')
    show "fst ` set ?new = fst ` set (cs @ [c])" by (rule k')
    show "vs \<noteq> []" if "map_of ?new p = Some vs" for p vs
      using l' [OF that] by (rule conjunct1)
    show "set vs \<subseteq> snd ` {x \<in> set (cs @ [c]). fst x = p}" if "map_of ?new p = Some vs" for p vs
      using l' [OF that, THEN conjunct2] by (rule conjunct1)
    show "fst ` set vs = fst ` snd ` {x \<in> set (cs @ [c]). fst x = p}"
      if "map_of ?new p = Some vs" for p vs
      using l' [OF that, THEN conjunct2] by (rule conjunct2)
  qed
qed

lemma modulesOf_iff:
  "module \<in> set (modulesOf entry) \<longleftrightarrow> (\<exists>a \<in> set (Affected entry). Name (Package a) = module)"
  by (auto simp: modulesOf_def)


lemma raw_distinct: "distinct (map fst (foldl addToModules [] entries))"
  unfolding addToModules_flat by (rule upserts_invariant [THEN conjunct1])

lemma raw_keys: "fst ` set (foldl addToModules [] entries) = set (concat (map modulesOf entries))"
proof -
  have "fst ` set (foldl addToModules [] entries) =
      fst ` set (concat (map (\<lambda>entry. map (\<lambda>affected.
          (Name (Package affected),
           (ID entry, Modified entry, latestFixedVersion (Ranges affected)))) (Affected entry))
        entries))"
    unfolding addToModules_flat by (rule upserts_invariant [THEN conjunct2, THEN conjunct1])
  also have "\<dots> = set (concat (map modulesOf entries))"
    by (simp add: modulesOf_def image_UN image_image)
  finally show ?thesis .
qed

lemma raw_list:
  assumes m: "map_of (foldl addToModules [] entries) p = Some vs"
  shows "vs \<noteq> []"
    and "\<forall>v \<in> set vs. \<exists>e \<in> set entries.
           fst v = ID e \<and> fst (snd v) = Modified e \<and> p \<in> set (modulesOf e)"
    and "fst ` set vs = ID ` {e \<in> set entries. p \<in> set (modulesOf e)}"
proof -
  let ?cs = "concat (map (\<lambda>entry. map (\<lambda>affected.
          (Name (Package affected),
           (ID entry, Modified entry, latestFixedVersion (Ranges affected)))) (Affected entry))
        entries)"
  note inv = upserts_invariant [of ?cs, THEN conjunct2, THEN conjunct2, rule_format,
      OF m [unfolded addToModules_flat]]
  have cs: "c \<in> set ?cs \<longleftrightarrow> (\<exists>e \<in> set entries. \<exists>a \<in> set (Affected e).
      c = (Name (Package a), ID e, Modified e, latestFixedVersion (Ranges a)))" for c
    by auto
  from inv show "vs \<noteq> []" by (rule conjunct1)
  from inv have sub: "set vs \<subseteq> snd ` {c \<in> set ?cs. fst c = p}"
    and ids: "fst ` set vs = fst ` snd ` {c \<in> set ?cs. fst c = p}"
    by (rule conjunct2 [THEN conjunct1], rule conjunct2 [THEN conjunct2])
  show "\<forall>v \<in> set vs. \<exists>e \<in> set entries.
           fst v = ID e \<and> fst (snd v) = Modified e \<and> p \<in> set (modulesOf e)"
  proof
    fix v assume "v \<in> set vs"
    with sub obtain c where c: "c \<in> set ?cs" "fst c = p" "v = snd c" by blast
    from c(1) obtain e a where ea: "e \<in> set entries" "a \<in> set (Affected e)"
        "c = (Name (Package a), ID e, Modified e, latestFixedVersion (Ranges a))"
      unfolding cs by blast
    from ea(2,3) c(2) have "p \<in> set (modulesOf e)"
      by (auto simp: modulesOf_iff)
    with ea c(3) show "\<exists>e \<in> set entries.
           fst v = ID e \<and> fst (snd v) = Modified e \<and> p \<in> set (modulesOf e)"
      by auto
  qed
  have "fst ` snd ` {c \<in> set ?cs. fst c = p} = ID ` {e \<in> set entries. p \<in> set (modulesOf e)}"
  proof (intro equalityI subsetI)
    fix i assume "i \<in> fst ` snd ` {c \<in> set ?cs. fst c = p}"
    then obtain c where c: "c \<in> set ?cs" "fst c = p" "i = fst (snd c)" by blast
    from c(1) obtain e a where ea: "e \<in> set entries" "a \<in> set (Affected e)"
        "c = (Name (Package a), ID e, Modified e, latestFixedVersion (Ranges a))"
      unfolding cs by blast
    from ea(2,3) c(2) have "p \<in> set (modulesOf e)"
      by (auto simp: modulesOf_iff)
    with ea c(3) show "i \<in> ID ` {e \<in> set entries. p \<in> set (modulesOf e)}"
      by auto
  next
    fix i assume "i \<in> ID ` {e \<in> set entries. p \<in> set (modulesOf e)}"
    then obtain e where e: "e \<in> set entries" "p \<in> set (modulesOf e)" "i = ID e" by blast
    from e(2) obtain a where a: "a \<in> set (Affected e)" "Name (Package a) = p"
      by (auto simp: modulesOf_iff)
    let ?c = "(Name (Package a), ID e, Modified e, latestFixedVersion (Ranges a))"
    from e(1) a(1) have "?c \<in> set ?cs" unfolding cs by blast
    with a(2) have "?c \<in> {c \<in> set ?cs. fst c = p}" by simp
    then have "fst (snd ?c) \<in> fst ` snd ` {c \<in> set ?cs. fst c = p}"
      by (intro imageI)
    with e(3) show "i \<in> fst ` snd ` {c \<in> set ?cs. fst c = p}" by simp
  qed
  with ids show "fst ` set vs = ID ` {e \<in> set entries. p \<in> set (modulesOf e)}" by simp
qed

lemma find_by_id:
  "distinct (map ID entries) \<Longrightarrow>
   find (\<lambda>entry. ID entry = i) entries = Some e \<longleftrightarrow> e \<in> set entries \<and> ID e = i"
  by (induction entries) (auto simp: image_iff)

lemma set_entriesOf:
  "distinct (map ID entries) \<Longrightarrow>
   set (entriesOf entries ids) = {e \<in> set entries. ID e \<in> set ids}"
proof (induction ids)
  case Nil
  show ?case by (simp add: entriesOf_def)
next
  case (Cons i ids)
  show ?case
  proof (cases "find (\<lambda>entry. ID entry = i) entries")
    case None
    then have "\<forall>e \<in> set entries. ID e \<noteq> i"
      by (simp add: find_None_iff)
    with None Cons show ?thesis
      by (auto simp: entriesOf_def)
  next
    case (Some e)
    with find_by_id [OF Cons.prems, of i e] have e: "e \<in> set entries" "ID e = i" by simp_all
    have "e' = e" if "e' \<in> set entries" "ID e' = i" for e'
      using find_by_id [OF Cons.prems, of i e'] that Some by simp
    with e have u: "{x \<in> set entries. ID x = i} = {e}" by blast
    have "set (entriesOf entries (i # ids)) = insert e (set (entriesOf entries ids))"
      using Some by (simp add: entriesOf_def)
    also have "\<dots> = {x \<in> set entries. ID x = i} \<union> {x \<in> set entries. ID x \<in> set ids}"
      unfolding u using Cons.IH [OF Cons.prems] by simp
    also have "\<dots> = {x \<in> set entries. ID x \<in> set (i # ids)}"
      by auto
    finally show ?thesis .
  qed
qed

lemma same_id:
  "distinct (map ID entries) \<Longrightarrow> e \<in> set entries \<Longrightarrow> e' \<in> set entries \<Longrightarrow>
   ID e = ID e' \<Longrightarrow> e = e'"
  by (simp add: distinct_map inj_on_def)

lemma module_entries:
  assumes d: "distinct (map ID entries)"
    and m: "map_of (foldl addToModules [] entries) p = Some vs"
  shows "set (entriesOf entries (map fst (sort_key fst vs))) =
           {e \<in> set entries. p \<in> set (modulesOf e)}"
    and "maxTime (map (\<lambda>v. fst (snd v)) vs) =
           Max (Modified ` {e \<in> set entries. p \<in> set (modulesOf e)})"
    and "{e \<in> set entries. p \<in> set (modulesOf e)} \<noteq> {}"
proof -
  note ne = raw_list(1) [OF m] and tup = raw_list(2) [OF m] and ids = raw_list(3) [OF m]
  let ?S = "{e \<in> set entries. p \<in> set (modulesOf e)}"
  have "{e \<in> set entries. ID e \<in> ID ` ?S} = ?S"
  proof (intro equalityI subsetI)
    fix e assume "e \<in> {e \<in> set entries. ID e \<in> ID ` ?S}"
    then obtain e' where e: "e \<in> set entries" "e' \<in> ?S" "ID e = ID e'" by blast
    then have "e = e'" using same_id [OF d, of e e'] by simp
    with e(2) show "e \<in> ?S" by simp
  next
    fix e assume "e \<in> ?S"
    then show "e \<in> {e \<in> set entries. ID e \<in> ID ` ?S}" by blast
  qed
  then show "set (entriesOf entries (map fst (sort_key fst vs))) = ?S"
    by (simp add: set_entriesOf [OF d] ids)
  from ne have "fst ` set vs \<noteq> {}" by simp
  with ids show "?S \<noteq> {}" by auto
  have "(\<lambda>v. fst (snd v)) ` set vs = Modified ` ?S"
  proof (intro equalityI subsetI)
    fix t assume "t \<in> (\<lambda>v. fst (snd v)) ` set vs"
    then obtain v where v: "v \<in> set vs" "t = fst (snd v)" by blast
    with tup obtain e where "e \<in> set entries" "fst (snd v) = Modified e" "p \<in> set (modulesOf e)"
      by blast
    with v(2) show "t \<in> Modified ` ?S" by auto
  next
    fix t assume "t \<in> Modified ` ?S"
    then obtain e where e: "e \<in> ?S" "t = Modified e" by blast
    then have "ID e \<in> fst ` set vs" unfolding ids by blast
    then obtain v where v: "v \<in> set vs" "fst v = ID e" by force
    with tup obtain e' where e': "e' \<in> set entries" "fst v = ID e'" "fst (snd v) = Modified e'"
      by blast
    from e(1) e'(1,2) v(2) have "e = e'"
      using same_id [OF d, of e e'] by simp
    with e' e(2) v(1) show "t \<in> (\<lambda>v. fst (snd v)) ` set vs" by force
  qed
  moreover from ne have "maxTime (map (\<lambda>v. fst (snd v)) vs) = Max (set (map (\<lambda>v. fst (snd v)) vs))"
    by (simp add: maxTime_Max)
  ultimately show "maxTime (map (\<lambda>v. fst (snd v)) vs) = Max (Modified ` ?S)"
    by simp
qed

lemma materialize_fields:
  "Index (materialize (buildIndexes byID entries)) =
     map (\<lambda>(p, vs). (p, maxTime (map (\<lambda>v. fst (snd v)) vs))) (foldl addToModules [] entries)"
  "EntriesByModule (materialize (buildIndexes byID entries)) =
     map (\<lambda>(p, vs). (p, entriesOf entries (map fst (sort_key fst vs))))
       (foldl addToModules [] entries)"
  "EntriesByID (materialize (buildIndexes byID entries)) = map (\<lambda>entry. (ID entry, entry)) entries"
  "IDsByAlias (materialize (buildIndexes byID entries)) =
     map (\<lambda>a. (a, idsOfAlias entries a)) (remdups (concat (map Aliases entries)))"
  by (simp_all add: materialize_def buildIndexes_def moduleIndex_def moduleEntry_def
      aliasIndex_def case_prod_beta)

lemma raw_lookup:
  "(p, vs) \<in> set (foldl addToModules [] entries) \<Longrightarrow>
   map_of (foldl addToModules [] entries) p = Some vs"
  using raw_distinct by (rule map_of_is_SomeI)

lemma materialized_module:
  "map_of (EntriesByModule (materialize (buildIndexes byID entries))) p =
     map_option (\<lambda>vs. entriesOf entries (map fst (sort_key fst vs)))
       (map_of (foldl addToModules [] entries) p)"
  by (simp add: materialize_fields(2) map_of_map)

lemma built_module_ok:
  assumes d: "distinct (map ID entries)"
    and m: "(p, vs) \<in> set (foldl addToModules [] entries)"
  shows "checkModule (materialize (buildIndexes byID entries))
           (p, maxTime (map (\<lambda>v. fst (snd v)) vs)) = OK \<longleftrightarrow>
         (\<exists>entry \<in> set entries. p \<in> set (modulesOf entry) \<and> zeroTime \<le> Modified entry)"
proof -
  let ?d = "materialize (buildIndexes byID entries)"
  let ?es = "entriesOf entries (map fst (sort_key fst vs))"
  let ?S = "{e \<in> set entries. p \<in> set (modulesOf e)}"
  note l = raw_lookup [OF m]
  note s = module_entries(1) [OF d l] and t = module_entries(2) [OF d l]
    and n = module_entries(3) [OF d l]
  have look: "map_of (EntriesByModule ?d) p = Some ?es"
    by (simp add: materialized_module l)
  from n s have ne: "?es \<noteq> []" by auto
  have ids: "\<forall>entry \<in> set ?es. map_of (EntriesByID ?d) (ID entry) = Some entry"
    using d by (simp add: s materialize_fields(3) lookup_by_id)
  have fin: "finite (Modified ` ?S)" by simp
  from n have ne': "Modified ` ?S \<noteq> {}" by simp
  have "checkModule ?d (p, maxTime (map (\<lambda>v. fst (snd v)) vs)) = OK \<longleftrightarrow>
      Max (Modified ` ?S) = Max (insert zeroTime (Modified ` ?S))"
    unfolding checkModule_OK_iff look t using ne ids s by simp
  also have "\<dots> \<longleftrightarrow> zeroTime \<le> Max (Modified ` ?S)"
    using fin ne' by (auto simp: max_def)
  also have "\<dots> \<longleftrightarrow> (\<exists>t \<in> Modified ` ?S. zeroTime \<le> t)"
    using fin ne' by (rule Max_ge_iff)
  also have "\<dots> \<longleftrightarrow>
      (\<exists>entry \<in> set entries. p \<in> set (modulesOf entry) \<and> zeroTime \<le> Modified entry)"
    by auto
  finally show ?thesis .
qed

lemma built_id_ok:
  assumes d: "distinct (map ID entries)" and e: "entry \<in> set entries"
  shows "checkID (materialize (buildIndexes byID entries)) (ID entry, entry) = OK"
proof -
  let ?d = "materialize (buildIndexes byID entries)"
  have "checkAffected ?d (ID entry) a = OK" if a: "a \<in> set (Affected entry)" for a
  proof -
    let ?m = "Name (Package a)"
    from a have m: "?m \<in> set (modulesOf entry)"
      by (auto simp: modulesOf_iff)
    with e have "?m \<in> set (concat (map modulesOf entries))" by auto
    then have "?m \<in> fst ` set (foldl addToModules [] entries)"
      by (simp only: raw_keys)
    then obtain vs where vs: "(?m, vs) \<in> set (foldl addToModules [] entries)" by auto
    note l = raw_lookup [OF vs]
    have "map_of (EntriesByModule ?d) ?m = Some (entriesOf entries (map fst (sort_key fst vs)))"
      by (simp add: materialized_module l)
    moreover from e m have "entry \<in> set (entriesOf entries (map fst (sort_key fst vs)))"
      unfolding module_entries(1) [OF d l] by simp
    ultimately show ?thesis
      unfolding checkAffected_OK_iff by force
  qed
  moreover have "checkAlias ?d (ID entry) entry a = OK" if a: "a \<in> set (Aliases entry)" for a
  proof -
    from a e have "a \<in> set (concat (map Aliases entries))" by auto
    then have "map_of (IDsByAlias ?d) a = Some (idsOfAlias entries a)"
      by (simp add: materialize_fields(4) map_of_graph)
    moreover from e a have "ID entry \<in> set (idsOfAlias entries a)"
      by (simp add: set_idsOfAlias)
    ultimately show ?thesis
      by (auto simp: checkAlias_OK_iff)
  qed
  ultimately show ?thesis
    by (simp add: checkID_OK_iff)
qed

lemma built_alias_ok:
  assumes d: "distinct (map ID entries)"
  shows "checkAliasIDs (materialize (buildIndexes byID entries)) (a, idsOfAlias entries a) = OK"
proof -
  let ?d = "materialize (buildIndexes byID entries)"
  have "checkGoID ?d a goID = OK" if g: "goID \<in> set (idsOfAlias entries a)" for goID
  proof -
    from g obtain entry where en: "entry \<in> set entries" "a \<in> set (Aliases entry)"
        "goID = ID entry"
      by (auto simp: set_idsOfAlias)
    with d have "map_of (EntriesByID ?d) goID = Some entry"
      by (simp add: materialize_fields(3) lookup_by_id)
    with en show ?thesis
      by (simp add: checkGoID_OK_iff)
  qed
  then show ?thesis
    by (simp add: checkAliasIDs_def forEach_OK_iff)
qed

lemma built_consistent_iff:
  assumes d: "distinct (map ID entries)"
  shows "checkInternalConsistency (materialize (buildIndexes byID entries)) = OK \<longleftrightarrow>
         (\<forall>module \<in> set (concat (map modulesOf entries)).
            \<exists>entry \<in> set entries. module \<in> set (modulesOf entry) \<and> zeroTime \<le> Modified entry)"
proof -
  let ?d = "materialize (buildIndexes byID entries)"
  let ?raw = "foldl addToModules [] entries"
  have len: "length (Index ?d) = length (EntriesByModule ?d)"
    by (simp add: materialize_fields)
  have ids: "\<forall>x \<in> set (EntriesByID ?d). checkID ?d x = OK"
    using d by (auto simp: materialize_fields(3) built_id_ok)
  have als: "\<forall>x \<in> set (IDsByAlias ?d). checkAliasIDs ?d x = OK"
    using d by (auto simp: materialize_fields(4) built_alias_ok)
  have "(\<forall>x \<in> set (Index ?d). checkModule ?d x = OK) \<longleftrightarrow>
      (\<forall>x \<in> set ?raw. checkModule ?d (fst x, maxTime (map (\<lambda>v. fst (snd v)) (snd x))) = OK)"
    by (simp add: materialize_fields(1) case_prod_beta)
  also have "\<dots> \<longleftrightarrow> (\<forall>x \<in> set ?raw.
      \<exists>entry \<in> set entries. fst x \<in> set (modulesOf entry) \<and> zeroTime \<le> Modified entry)"
    using built_module_ok [OF d, of _ _ byID] by (intro ball_cong refl) (simp add: case_prod_beta)
  also have "\<dots> \<longleftrightarrow> (\<forall>module \<in> fst ` set ?raw.
      \<exists>entry \<in> set entries. module \<in> set (modulesOf entry) \<and> zeroTime \<le> Modified entry)"
    by simp
  finally have mods: "(\<forall>x \<in> set (Index ?d). checkModule ?d x = OK) \<longleftrightarrow>
      (\<forall>module \<in> set (concat (map modulesOf entries)).
         \<exists>entry \<in> set entries. module \<in> set (modulesOf entry) \<and> zeroTime \<le> Modified entry)"
    unfolding raw_keys .
  from len ids als mods show ?thesis
    by (simp add: checkInternalConsistency_OK_iff)
qed

text \<open>
  The check on the materialized result of \<^verbatim>\<open>New\<close>: it passes exactly when every affected
  module has an entry that was modified at the zero time or later, and so whenever no entry
  was modified before the zero time.
\<close>

lemma normalizer_output_accepted:
  assumes d: "distinct (map ID entries)"
  shows "\<exists>ix. New entries = Inr ix \<and>
           (checkInternalConsistency (materialize ix) = OK \<longleftrightarrow>
              (\<forall>module \<in> set (concat (map modulesOf entries)).
                 \<exists>entry \<in> set entries.
                   module \<in> set (modulesOf entry) \<and> zeroTime \<le> Modified entry))"
    and "(\<forall>entry \<in> set entries. zeroTime \<le> Modified entry) \<Longrightarrow>
           \<exists>ix. New entries = Inr ix \<and> checkInternalConsistency (materialize ix) = OK"
proof -
  let ?ix = "buildIndexes (map (\<lambda>entry. (ID entry, entry)) entries) entries"
  let ?cond = "\<forall>module \<in> set (concat (map modulesOf entries)).
      \<exists>entry \<in> set entries. module \<in> set (modulesOf entry) \<and> zeroTime \<le> Modified entry"
  from d have new: "New entries = Inr ?ix" by (rule New_distinct)
  from d have iff: "checkInternalConsistency (materialize ?ix) = OK \<longleftrightarrow> ?cond"
    by (rule built_consistent_iff)
  from new iff show "\<exists>ix. New entries = Inr ix \<and>
      (checkInternalConsistency (materialize ix) = OK \<longleftrightarrow> ?cond)"
    by blast
  assume "\<forall>entry \<in> set entries. zeroTime \<le> Modified entry"
  then have "?cond" by auto
  with new iff show "\<exists>ix. New entries = Inr ix \<and> checkInternalConsistency (materialize ix) = OK"
    by blast
qed

section \<open>Facts about the example data\<close>

lemma example_times:
  "Modified testOSV1 = 63082281600" "Modified testOSV2 = 63145440000"
  "Modified testOSV3 = 63176976000" "Modified earlyEntry = - 86400"
  by (simp_all add: testOSV1_def testOSV2_def testOSV3_def earlyEntry_def
      jan2000_def jan2002_def jan2003_def)

lemmas time_defs = zeroTime_def jan1999_def jan2000_def jan2002_def jan2003_def

lemma example_ids:
  "ID testOSV1 = ''GO-1999-0001''" "ID testOSV2 = ''GO-2000-0002''"
  "ID testOSV3 = ''GO-2000-0003''" "ID earlyEntry = ''GO-0000-0001''"
  by (simp_all add: testOSV1_def testOSV2_def testOSV3_def earlyEntry_def)

lemma example_aliases:
  "Aliases testOSV1 = [''CVE-1999-1111'']" "Aliases testOSV2 = [''CVE-1999-2222'']"
  "Aliases testOSV3 = [''CVE-1999-3333'', ''GHSA-xxxx-yyyy-zzzz'']"
  by (simp_all add: testOSV1_def testOSV2_def testOSV3_def)

lemma validDB_fields:
  "Index validDB = [(''example.com/module'', jan2003), (''stdlib'', jan2000)]"
  "EntriesByID validDB = [(''GO-1999-0001'', testOSV1), (''GO-2000-0002'', testOSV2),
                    (''GO-2000-0003'', testOSV3)]"
  "EntriesByModule validDB =
     [(''example.com/module'', [testOSV2, testOSV3]), (''stdlib'', [testOSV1])]"
  "IDsByAlias validDB =
     [(''CVE-1999-1111'', [''GO-1999-0001'']), (''CVE-1999-2222'', [''GO-2000-0002'']),
      (''CVE-1999-3333'', [''GO-2000-0003'']), (''GHSA-xxxx-yyyy-zzzz'', [''GO-2000-0003''])]"
  by (simp_all add: validDB_def)

lemma validDB_consistent: "checkInternalConsistency validDB = OK"
  by code_simp





lemma sample_walks:
  "checkNoUnexpectedFiles sampleCollaborators validDB ''db'' sampleWalk = OK"
  "checkFile sampleCollaborators validDB ''db'' (Visit ''db'' ''db'' True) = OK"
  "checkFile sampleCollaborators validDB ''db'' (Visit ''db/ID'' ''ID'' True) = OK"
  "checkFile sampleCollaborators validDB ''db'' (Visit ''db/example.com'' ''example.com'' True) = OK"
  "checkFile sampleCollaborators twoFaultsDB ''db'' (Visit ''db'' ''db'' True) = OK"
  "checkFile sampleCollaborators twoFaultsDB ''db'' (Visit ''db/example.com'' ''example.com'' True) = OK"
  "checkFile sampleCollaborators twoFaultsDB ''db'' (Visit ''db/example.com/README'' ''README'' False) =
     Inl (NonJSONFile ''db/example.com/README'')"
  by code_simp+


lemma fault_fields:
  "Index twoFaultsDB = [] @ (''example.com/module'', jan2002) # [(''stdlib'', jan2000)]"
  "length (Index twoFaultsDB) = length (EntriesByModule twoFaultsDB)"
  "length (Index shortIndexDB) = 1" "length (EntriesByModule shortIndexDB) = 2"
  "length (Index emptyAliasDB) = length (EntriesByModule emptyAliasDB)"
  "EntriesByID emptyAliasDB =
     [] @ (''GO-1999-0001'', testOSV1) # [(''GO-2000-0002'', testOSV2), (''GO-2000-0003'', testOSV3)]"
  "length (Index extraAliasDB) = length (EntriesByModule extraAliasDB)"
  "IDsByAlias extraAliasDB =
     [] @ (''CVE-0000-0000'', [''GO-1999-0001'']) #
       [(''CVE-1999-1111'', [''GO-1999-0001'']), (''CVE-1999-2222'', [''GO-2000-0002'']),
        (''CVE-1999-3333'', [''GO-2000-0003'']), (''GHSA-xxxx-yyyy-zzzz'', [''GO-2000-0003''])]"
  by (simp_all add: twoFaultsDB_def shortIndexDB_def emptyAliasDB_def extraAliasDB_def validDB_def)

lemma fault_checks:
  "checkModule twoFaultsDB (''example.com/module'', jan2002) =
     Inl (IncorrectModified ''example.com/module'' jan2003 jan2002)"
  "\<forall>x \<in> set (Index emptyAliasDB). checkModule emptyAliasDB x = OK"
  "checkID emptyAliasDB (''GO-1999-0001'', testOSV1) =
     Inl (AliasNotFound ''CVE-1999-1111'' ''GO-1999-0001'')"
  "\<forall>x \<in> set (Index extraAliasDB). checkModule extraAliasDB x = OK"
  "\<forall>x \<in> set (EntriesByID extraAliasDB). checkID extraAliasDB x = OK"
  "checkAliasIDs extraAliasDB (''CVE-0000-0000'', [''GO-1999-0001'']) =
     Inl (AdvisoryLacksAlias ''GO-1999-0001'' ''CVE-0000-0000'')"
  by code_simp+

lemma range_facts:
  "\<forall>r \<in> set rangesNoFix. \<forall>e \<in> set (Events r). Fixed e = []"
  "\<exists>r \<in> set rangesUnsorted. \<exists>e \<in> set (Events r). Fixed e \<noteq> []"
  "set (allEvents rangesSorted) = set (allEvents rangesUnsorted)"
  "\<forall>e \<in> set (allEvents rangesUnsorted). \<forall>e' \<in> set (allEvents rangesUnsorted).
     Fixed e \<noteq> [] \<and> Fixed e' \<noteq> [] \<and> Compare (V (Fixed e)) (V (Fixed e')) = 0 \<longrightarrow>
       Fixed e = Fixed e'"
  by code_simp+

lemma range_values:
  "latestFixedVersion rangesUnsorted = ''1.0.0''"
  "latestFixedVersion rangesMultiple = ''0.2.0''"
  "latestFixedVersion rangesPseudoversion = ''0.0.0-20240824120805-hij''"
  "Before ''0.1.0'' ''1.0.0''"
  "Before ''0.0.0-20220824120805-abc'' ''0.0.0-20240824120805-hij''"
  "Compare (V ''1.0'') (V ''1.0.0'') = 0"
  by code_simp+

lemma new_examples:
  "New [testOSV1, testOSV2, testOSV3] = Inr normalized"
  "New duplicateEntries = Inl (DuplicateID ''GO-1999-0001'')"
  "\<not> distinct (map ID duplicateEntries)"
  by code_simp+


section \<open>The claims\<close>

text \<open>
  Claim C1, at a module whose only entry was modified one day before the zero time. The
  claim wants the recorded time of a module to be the maximum of the modified times listed
  for it. The loop of the check keeps a running maximum, \<^verbatim>\<open>wantModified\<close>, but starts it at
  the zero time and not at a listed time, so the entry does not raise it: the check rejects
  the database that records the entry's own time for the module, which is the maximum, with
  the error that wants the zero time, and accepts the database that records the zero time,
  which is later than the maximum. For the entries of \<^verbatim>\<open>new_test.go\<close>, all modified after the
  zero time, the check does what the claim says: it accepts the recorded maximum and
  reports an older recorded time with the error that names the module.
\<close>

theorem C1_check_at_a_time_before_the_zero_time:
  "map_of (EntriesByModule earlyDB) ''stdlib'' = Some [earlyEntry] \<and>
   Max (Modified ` set [earlyEntry]) = - 86400 \<and>
   map_of (Index earlyDB) ''stdlib'' = Some (- 86400) \<and>
   checkInternalConsistency earlyDB = Inl (IncorrectModified ''stdlib'' zeroTime (- 86400)) \<and>
   map_of (EntriesByModule earlyZeroDB) ''stdlib'' = Some [earlyEntry] \<and>
   map_of (Index earlyZeroDB) ''stdlib'' = Some zeroTime \<and>
   - 86400 < zeroTime \<and>
   checkInternalConsistency earlyZeroDB = OK \<and>
   checkInternalConsistency validDB = OK \<and>
   checkInternalConsistency staleDB =
     Inl (IncorrectModified ''example.com/module'' jan2003 jan2002)"
proof -
  have "checkInternalConsistency earlyZeroDB = OK"
    by code_simp
  moreover have "checkInternalConsistency earlyDB =
      Inl (IncorrectModified ''stdlib'' zeroTime (- 86400))"
    by code_simp
  moreover have "checkInternalConsistency staleDB =
      Inl (IncorrectModified ''example.com/module'' jan2003 jan2002)"
    by code_simp
  ultimately show ?thesis
    using validDB_consistent
    by (simp add: earlyZeroDB_def earlyDB_def example_times time_defs)
qed

text \<open>
  Claim C2. In a database that the check accepts, every entry listed under a module of the
  index is found under its ID in the by-ID index, and the entry found is equal to the
  listed one in every field. At the first listed entry for which this fails the sub-check of
  the module stops: with the error for a missing advisory when the ID is not a key, with the
  error for inconsistent contents when the entry stored under the ID differs; the check
  fails.
\<close>

theorem C2_module_entry_equals_entry_by_id:
  "(checkInternalConsistency d = OK \<longrightarrow>
      (\<forall>(module, modified) \<in> set (Index d).
         \<exists>entries. map_of (EntriesByModule d) module = Some entries \<and>
           (\<forall>entry \<in> set entries. map_of (EntriesByID d) (ID entry) = Some entry))) \<and>
   ((module, modified) \<in> set (Index d) \<and>
    map_of (EntriesByModule d) module = Some (pre @ entry # post) \<and>
    (\<forall>p \<in> set pre. map_of (EntriesByID d) (ID p) = Some p) \<and>
    map_of (EntriesByID d) (ID entry) \<noteq> Some entry \<longrightarrow>
      (\<exists>e. checkInternalConsistency d = Inl e) \<and>
      checkModule d (module, modified) =
        (case map_of (EntriesByID d) (ID entry) of
           None \<Rightarrow> Inl (NoAdvisoryForID (ID entry) module)
         | Some entryByID \<Rightarrow> Inl (InconsistentOSV (ID entry))))"
proof (intro conjI impI)
  assume ok: "checkInternalConsistency d = OK"
  show "\<forall>(module, modified) \<in> set (Index d).
         \<exists>entries. map_of (EntriesByModule d) module = Some entries \<and>
           (\<forall>entry \<in> set entries. map_of (EntriesByID d) (ID entry) = Some entry)"
  proof (clarify)
    fix module modified
    assume "(module, modified) \<in> set (Index d)"
    with ok have "checkModule d (module, modified) = OK"
      by (simp add: checkInternalConsistency_OK_iff)
    then show "\<exists>entries. map_of (EntriesByModule d) module = Some entries \<and>
           (\<forall>entry \<in> set entries. map_of (EntriesByID d) (ID entry) = Some entry)"
      by (auto simp: checkModule_OK_iff)
  qed
next
  assume a: "(module, modified) \<in> set (Index d) \<and>
    map_of (EntriesByModule d) module = Some (pre @ entry # post) \<and>
    (\<forall>p \<in> set pre. map_of (EntriesByID d) (ID p) = Some p) \<and>
    map_of (EntriesByID d) (ID entry) \<noteq> Some entry"
  then have "checkModule d (module, modified) \<noteq> OK"
    by (auto simp: checkModule_OK_iff)
  with a have "checkInternalConsistency d \<noteq> OK"
    by (auto simp: checkInternalConsistency_OK_iff)
  then show "\<exists>e. checkInternalConsistency d = Inl e"
    by (rule checkInternalConsistency_fails)
next
  assume a: "(module, modified) \<in> set (Index d) \<and>
    map_of (EntriesByModule d) module = Some (pre @ entry # post) \<and>
    (\<forall>p \<in> set pre. map_of (EntriesByID d) (ID p) = Some p) \<and>
    map_of (EntriesByID d) (ID entry) \<noteq> Some entry"
  then have "checkEntries d module zeroTime (pre @ entry # post) =
     (case map_of (EntriesByID d) (ID entry) of
        None \<Rightarrow> Inl (NoAdvisoryForID (ID entry) module)
      | Some entryByID \<Rightarrow> Inl (InconsistentOSV (ID entry)))"
    by (simp add: checkEntries_first_mismatch)
  with a show "checkModule d (module, modified) =
        (case map_of (EntriesByID d) (ID entry) of
           None \<Rightarrow> Inl (NoAdvisoryForID (ID entry) module)
         | Some entryByID \<Rightarrow> Inl (InconsistentOSV (ID entry)))"
    by (auto simp: checkModule_def split: option.splits)
qed

theorem C2_witness:
  "checkInternalConsistency validDB = OK \<and>
   map_of (EntriesByModule validDB) ''example.com/module'' = Some [testOSV2, testOSV3] \<and>
   map_of (EntriesByID validDB) (ID testOSV3) = Some testOSV3 \<and>
   (''example.com/module'', jan2003) \<in> set (Index divergedDB) \<and>
   map_of (EntriesByModule divergedDB) ''example.com/module'' =
     Some ([testOSV2] @ testOSV3\<lparr>Details := ''Other details''\<rparr> # []) \<and>
   map_of (EntriesByID divergedDB) (ID testOSV2) = Some testOSV2 \<and>
   map_of (EntriesByID divergedDB) (ID (testOSV3\<lparr>Details := ''Other details''\<rparr>)) =
     Some testOSV3 \<and>
   testOSV3 \<noteq> testOSV3\<lparr>Details := ''Other details''\<rparr> \<and>
   checkModule divergedDB (''example.com/module'', jan2003) = Inl (InconsistentOSV ''GO-2000-0003'') \<and>
   (\<exists>e. checkInternalConsistency divergedDB = Inl e)"
proof -
  have ne: "testOSV3 \<noteq> testOSV3\<lparr>Details := ''Other details''\<rparr>"
    by (simp add: testOSV3_def)
  show ?thesis
    using C2_module_entry_equals_entry_by_id [of validDB]
      C2_module_entry_equals_entry_by_id [of divergedDB "''example.com/module''" jan2003
        "[testOSV2]" "testOSV3\<lparr>Details := ''Other details''\<rparr>" "[]"]
      validDB_consistent ne
    by (simp add: divergedDB_def validDB_fields example_ids)
qed


text \<open>
  Claim C4, for \<^verbatim>\<open>latestFixedVersion\<close> as modelled from the spec. When no event of any range
  has a fixed boundary the result is the empty string, as it is for no range at all and for
  one range with one event that is only introduced. Otherwise the result is the fixed
  boundary of one of the events, and no fixed boundary of any event is a later version.
  Two collections of ranges with the same events, in any order and in any ranges, have
  results that compare equal as versions; the results are the same string when no two
  different fixed boundaries compare equal (as \<^verbatim>\<open>1.0\<close> and \<^verbatim>\<open>1.0.0\<close> do).
\<close>

theorem C4_latest_fixed_version_is_the_maximum:
  "((\<forall>r \<in> set ranges. \<forall>e \<in> set (Events r). Fixed e = []) \<longrightarrow>
      latestFixedVersion ranges = []) \<and>
   latestFixedVersion [] = [] \<and>
   latestFixedVersion [\<lparr>Type = t, Events = [\<lparr>Introduced = introduced, Fixed = []\<rparr>]\<rparr>] = [] \<and>
   ((\<exists>r \<in> set ranges. \<exists>e \<in> set (Events r). Fixed e \<noteq> []) \<longrightarrow>
      (\<exists>r \<in> set ranges. \<exists>e \<in> set (Events r).
         Fixed e \<noteq> [] \<and> latestFixedVersion ranges = Fixed e) \<and>
      (\<forall>r \<in> set ranges. \<forall>e \<in> set (Events r).
         Fixed e \<noteq> [] \<longrightarrow> \<not> Before (latestFixedVersion ranges) (Fixed e))) \<and>
   (set (allEvents ranges') = set (allEvents ranges) \<longrightarrow>
      Compare (V (latestFixedVersion ranges')) (V (latestFixedVersion ranges)) = 0 \<and>
      ((\<forall>e \<in> set (allEvents ranges). \<forall>e' \<in> set (allEvents ranges).
          Fixed e \<noteq> [] \<and> Fixed e' \<noteq> [] \<and> Compare (V (Fixed e)) (V (Fixed e')) = 0 \<longrightarrow>
            Fixed e = Fixed e') \<longrightarrow>
         latestFixedVersion ranges' = latestFixedVersion ranges))"
proof (intro conjI impI)
  show "latestFixedVersion ranges = []"
    if "\<forall>r \<in> set ranges. \<forall>e \<in> set (Events r). Fixed e = []"
  proof -
    from that have "set (fixedBoundaries ranges) = {}"
      by (auto simp: set_fixedBoundaries set_allEvents)
    then show ?thesis by (simp add: latestFixedVersion_none)
  qed
  show "latestFixedVersion [] = []"
    by (simp add: latestFixedVersion_def fixedBoundaries_def)
  show "latestFixedVersion [\<lparr>Type = t, Events = [\<lparr>Introduced = introduced, Fixed = []\<rparr>]\<rparr>] = []"
    by (simp add: latestFixedVersion_def fixedBoundaries_def)
next
  assume "\<exists>r \<in> set ranges. \<exists>e \<in> set (Events r). Fixed e \<noteq> []"
  then have "set (fixedBoundaries ranges) \<noteq> {}"
    by (auto simp: set_fixedBoundaries set_allEvents)
  then have "latestFixedVersion ranges \<in> set (fixedBoundaries ranges)"
    by (simp add: latestFixedVersion_in)
  then have l: "latestFixedVersion ranges \<in> Fixed ` set (allEvents ranges)"
      "latestFixedVersion ranges \<noteq> []"
    by (simp_all add: set_fixedBoundaries)
  from l(1) obtain e where e: "e \<in> set (allEvents ranges)" "latestFixedVersion ranges = Fixed e"
    by blast
  from e(1) obtain r where r: "r \<in> set ranges" "e \<in> set (Events r)"
    by (auto simp: set_allEvents)
  from e(2) l(2) have "Fixed e \<noteq> []" by simp
  with e(2) have "Fixed e \<noteq> [] \<and> latestFixedVersion ranges = Fixed e" by simp
  from this r(2) have "\<exists>e \<in> set (Events r).
      Fixed e \<noteq> [] \<and> latestFixedVersion ranges = Fixed e"
    by (rule bexI)
  from this r(1) show "\<exists>r \<in> set ranges. \<exists>e \<in> set (Events r).
         Fixed e \<noteq> [] \<and> latestFixedVersion ranges = Fixed e"
    by (rule bexI)
next
  show "\<forall>r \<in> set ranges. \<forall>e \<in> set (Events r).
         Fixed e \<noteq> [] \<longrightarrow> \<not> Before (latestFixedVersion ranges) (Fixed e)"
  proof (intro ballI impI)
    fix r e
    assume "r \<in> set ranges" "e \<in> set (Events r)" "Fixed e \<noteq> []"
    then have "Fixed e \<in> set (fixedBoundaries ranges)"
      by (auto simp: set_fixedBoundaries set_allEvents)
    then show "\<not> Before (latestFixedVersion ranges) (Fixed e)"
      by (rule latestFixedVersion_greatest)
  qed
next
  assume "set (allEvents ranges') = set (allEvents ranges)"
  then have "set (fixedBoundaries ranges') = set (fixedBoundaries ranges)"
    by (simp add: set_fixedBoundaries)
  then have "versionKey (latestFixedVersion ranges') = versionKey (latestFixedVersion ranges)"
    by (rule latestFixedVersion_same_key)
  then show "Compare (V (latestFixedVersion ranges')) (V (latestFixedVersion ranges)) = 0"
    by (simp add: Compare_0_iff)
next
  assume ev: "set (allEvents ranges') = set (allEvents ranges)"
    and inj: "\<forall>e \<in> set (allEvents ranges). \<forall>e' \<in> set (allEvents ranges).
          Fixed e \<noteq> [] \<and> Fixed e' \<noteq> [] \<and> Compare (V (Fixed e)) (V (Fixed e')) = 0 \<longrightarrow>
            Fixed e = Fixed e'"
  from ev have same: "set (fixedBoundaries ranges') = set (fixedBoundaries ranges)"
    by (simp add: set_fixedBoundaries)
  show "latestFixedVersion ranges' = latestFixedVersion ranges"
  proof (cases "fixedBoundaries ranges = []")
    case True
    with same have "fixedBoundaries ranges' = []" by simp
    with True show ?thesis by (simp add: latestFixedVersion_none)
  next
    case False
    with same have "fixedBoundaries ranges' \<noteq> []" by auto
    then have "latestFixedVersion ranges' \<in> set (fixedBoundaries ranges)"
      using same latestFixedVersion_in by blast
    moreover from False have "latestFixedVersion ranges \<in> set (fixedBoundaries ranges)"
      by (rule latestFixedVersion_in)
    moreover have "Compare (V (latestFixedVersion ranges')) (V (latestFixedVersion ranges)) = 0"
      using latestFixedVersion_same_key [OF same] by (simp add: Compare_0_iff)
    ultimately show ?thesis
      using inj by (auto simp: set_fixedBoundaries)
  qed
qed

theorem C4_witness:
  "latestFixedVersion rangesNoFix = [] \<and>
   latestFixedVersion rangesUnsorted = ''1.0.0'' \<and>
   latestFixedVersion rangesSorted = latestFixedVersion rangesUnsorted \<and>
   latestFixedVersion rangesMultiple = ''0.2.0'' \<and>
   latestFixedVersion rangesPseudoversion = ''0.0.0-20240824120805-hij'' \<and>
   Before ''0.1.0'' (latestFixedVersion rangesUnsorted) \<and>
   Before ''0.0.0-20220824120805-abc'' (latestFixedVersion rangesPseudoversion) \<and>
   \<not> Before (latestFixedVersion rangesUnsorted) ''0.1.0'' \<and>
   \<not> Before (latestFixedVersion rangesUnsorted) ''1.0.0''"
proof -
  have none: "latestFixedVersion rangesNoFix = []"
    using C4_latest_fixed_version_is_the_maximum [where ranges = rangesNoFix, THEN conjunct1]
      range_facts(1)
    by simp
  have same: "latestFixedVersion rangesSorted = latestFixedVersion rangesUnsorted"
    using C4_latest_fixed_version_is_the_maximum [where ranges = rangesUnsorted
        and ranges' = rangesSorted, THEN conjunct2, THEN conjunct2, THEN conjunct2, THEN conjunct2]
      range_facts(3,4)
    by simp
  have greatest: "\<not> Before (latestFixedVersion rangesUnsorted) ''0.1.0'' \<and>
      \<not> Before (latestFixedVersion rangesUnsorted) ''1.0.0''"
    using C4_latest_fixed_version_is_the_maximum [where ranges = rangesUnsorted,
        THEN conjunct2, THEN conjunct2, THEN conjunct2, THEN conjunct1] range_facts(2)
    by (simp add: rangesUnsorted_def)
  show ?thesis
    using none same greatest by (simp add: range_values)
qed

text \<open>
  Claim C5. The check succeeds only if the alias relation holds in both directions: for every
  entry of the by-ID index and every alias in its alias list, the alias is a key of the alias
  index and its ID list contains the ID under which the entry is stored; and for every alias
  key and every ID listed under it, the by-ID index has an entry under that ID whose alias
  list contains the alias. The ID under which an entry is stored is the entry's own ID field
  for every entry that affects a module, in a database whose maps have each key once, as Go
  maps do.
\<close>

theorem C5_alias_relation_is_bidirectional:
  "checkInternalConsistency d = OK \<Longrightarrow>
     (\<forall>(eid, entry) \<in> set (EntriesByID d). \<forall>alias \<in> set (Aliases entry).
        \<exists>goIDs. map_of (IDsByAlias d) alias = Some goIDs \<and> eid \<in> set goIDs) \<and>
     (\<forall>(alias, goIDs) \<in> set (IDsByAlias d). \<forall>goID \<in> set goIDs.
        \<exists>entry. map_of (EntriesByID d) goID = Some entry \<and> alias \<in> set (Aliases entry)) \<and>
     (distinct (map fst (Index d)) \<and> distinct (map fst (EntriesByModule d)) \<and>
      distinct (map fst (EntriesByID d)) \<longrightarrow>
        (\<forall>(eid, entry) \<in> set (EntriesByID d). Affected entry \<noteq> [] \<longrightarrow> ID entry = eid))"
proof (intro conjI impI; clarify)
  assume ok: "checkInternalConsistency d = OK"
  fix eid entry a
  assume "(eid, entry) \<in> set (EntriesByID d)" "a \<in> set (Aliases entry)"
  with ok have "checkAlias d eid entry a = OK"
    by (auto simp: checkInternalConsistency_OK_iff checkID_OK_iff)
  then show "\<exists>goIDs. map_of (IDsByAlias d) a = Some goIDs \<and> eid \<in> set goIDs"
    by (auto simp: checkAlias_OK_iff)
next
  assume ok: "checkInternalConsistency d = OK"
  fix a goIDs goID
  assume "(a, goIDs) \<in> set (IDsByAlias d)" "goID \<in> set goIDs"
  with ok have "checkGoID d a goID = OK"
    by (auto simp: checkInternalConsistency_OK_iff checkAliasIDs_def forEach_OK_iff)
  then show "\<exists>entry. map_of (EntriesByID d) goID = Some entry \<and> a \<in> set (Aliases entry)"
    by (simp add: checkGoID_OK_iff)
next
  assume ok: "checkInternalConsistency d = OK"
  fix eid entry
  assume "distinct (map fst (Index d))" "distinct (map fst (EntriesByModule d))"
    "distinct (map fst (EntriesByID d))" "(eid, entry) \<in> set (EntriesByID d)"
    "Affected entry \<noteq> []"
  with ok show "ID entry = eid"
    by (rule accepted_key_is_id)
qed

theorem C5_witness:
  "checkInternalConsistency validDB = OK \<and>
   (''GO-2000-0003'', testOSV3) \<in> set (EntriesByID validDB) \<and>
   ''GHSA-xxxx-yyyy-zzzz'' \<in> set (Aliases testOSV3) \<and>
   map_of (IDsByAlias validDB) ''GHSA-xxxx-yyyy-zzzz'' = Some [''GO-2000-0003''] \<and>
   (''CVE-1999-1111'', [''GO-1999-0001'']) \<in> set (IDsByAlias validDB) \<and>
   map_of (EntriesByID validDB) ''GO-1999-0001'' = Some testOSV1 \<and>
   ''CVE-1999-1111'' \<in> set (Aliases testOSV1) \<and>
   distinct (map fst (Index validDB)) \<and> distinct (map fst (EntriesByModule validDB)) \<and>
   distinct (map fst (EntriesByID validDB)) \<and> Affected testOSV3 \<noteq> [] \<and>
   ID testOSV3 = ''GO-2000-0003''"
proof -
  have affected: "Affected testOSV3 \<noteq> []"
    by (simp add: testOSV3_def)
  show ?thesis
    using C5_alias_relation_is_bidirectional [OF validDB_consistent] validDB_consistent affected
    by (simp add: validDB_fields example_aliases)
qed

text \<open>
  Claim C6, for \<^verbatim>\<open>New\<close> as modelled from the spec. When two input entries share an ID,
  \<^verbatim>\<open>New\<close> returns the construction error for the ID of the first entry that repeats an
  earlier one, and no indexes. Whenever it returns indexes, the IDs of the input are
  distinct, the vulnerability index holds every input entry under its own ID, with its ID,
  modified time and aliases, and the entries of the result are the input entries.
\<close>

theorem C6_duplicate_ids_are_rejected:
  "(\<not> distinct (map ID entries) \<longrightarrow>
      (\<exists>pre entry post. entries = pre @ entry # post \<and> ID entry \<in> ID ` set pre \<and>
         New entries = Inl (DuplicateID (ID entry)))) \<and>
   (New entries = Inr ix \<longrightarrow>
      distinct (map ID entries) \<and>
      Vulns ix = map (\<lambda>entry. (ID entry, ID entry, Modified entry, Aliases entry)) entries \<and>
      Entries ix = entries)"
proof (intro conjI impI)
  assume dup: "\<not> distinct (map ID entries)"
  have "\<exists>err. addEntries [] entries = Inl err"
  proof (cases "addEntries [] entries")
    case (Inl err)
    then show ?thesis by blast
  next
    case (Inr r)
    with dup show ?thesis by (simp add: addEntries_Inr_iff)
  qed
  then obtain err where err: "addEntries [] entries = Inl err" by blast
  from New_duplicate [OF err]
  obtain pre entry post where p: "entries = pre @ entry # post" "err = DuplicateID (ID entry)"
      "ID entry \<in> ID ` set pre"
    by (elim exE conjE)
  note p(3)
  moreover from New_Inl [OF err] p(2) have "New entries = Inl (DuplicateID (ID entry))"
    by simp
  ultimately have "entries = pre @ entry # post \<and> ID entry \<in> ID ` set pre \<and>
         New entries = Inl (DuplicateID (ID entry))"
    using p(1) by blast
  then show "\<exists>pre entry post. entries = pre @ entry # post \<and> ID entry \<in> ID ` set pre \<and>
         New entries = Inl (DuplicateID (ID entry))"
    by blast
next
  assume new: "New entries = Inr ix"
  from New_Inr [OF new]
  obtain byID where b: "addEntries [] entries = Inr byID" "ix = buildIndexes byID entries"
    by blast
  from b(1) have r: "distinct (map ID entries)" "byID = map (\<lambda>entry. (ID entry, entry)) entries"
    by (simp_all add: addEntries_Inr_iff)
  from r(1) show "distinct (map ID entries)" .
  from b(2) r(2)
  show "Vulns ix = map (\<lambda>entry. (ID entry, ID entry, Modified entry, Aliases entry)) entries"
    by (simp add: buildIndexes_fields vulnOf_def)
  from b(2) show "Entries ix = entries"
    by (simp add: buildIndexes_fields)
qed

theorem C6_witness:
  "\<not> distinct (map ID duplicateEntries) \<and>
   New duplicateEntries = Inl (DuplicateID ''GO-1999-0001'') \<and>
   (\<exists>pre entry post. duplicateEntries = pre @ entry # post \<and> ID entry \<in> ID ` set pre \<and>
      New duplicateEntries = Inl (DuplicateID (ID entry))) \<and>
   New [testOSV1, testOSV2, testOSV3] = Inr normalized \<and>
   distinct (map ID [testOSV1, testOSV2, testOSV3]) \<and>
   Vulns normalized =
     map (\<lambda>entry. (ID entry, ID entry, Modified entry, Aliases entry))
       [testOSV1, testOSV2, testOSV3] \<and>
   Entries normalized = [testOSV1, testOSV2, testOSV3]"
proof -
  have rejected: "\<exists>pre entry post. duplicateEntries = pre @ entry # post \<and>
      ID entry \<in> ID ` set pre \<and> New duplicateEntries = Inl (DuplicateID (ID entry))"
    using C6_duplicate_ids_are_rejected [of duplicateEntries, THEN conjunct1] new_examples(3)
    by (rule mp)
  have built: "distinct (map ID [testOSV1, testOSV2, testOSV3]) \<and>
      Vulns normalized =
        map (\<lambda>entry. (ID entry, ID entry, Modified entry, Aliases entry))
          [testOSV1, testOSV2, testOSV3] \<and>
      Entries normalized = [testOSV1, testOSV2, testOSV3]"
    using C6_duplicate_ids_are_rejected [of "[testOSV1, testOSV2, testOSV3]" normalized,
        THEN conjunct2] new_examples(1)
    by (rule mp)
  from new_examples(3) new_examples(2) rejected new_examples(1) built show ?thesis
    by (intro conjI) (erule conjunct1 conjunct2 [THEN conjunct1] conjunct2 [THEN conjunct2]
      | assumption)+
qed

text \<open>
  Claim C7. Validation returns the first finding and nothing after it. In the file pass the
  first call that fails ends the walk with its error, whatever the walk holds after it, and a
  call that reports a failed read fails with that error. When the file pass fails, validation
  returns its error and the consistency check has no part in the result; when it succeeds,
  validation returns what the consistency check returns; so validation succeeds exactly when
  both succeed. The consistency check returns the length mismatch when the lengths differ,
  and otherwise the error of the first module of the index that fails, then of the first
  entry of the by-ID index that fails, then of the first alias that fails, each whatever
  comes after it.
\<close>

theorem C7_first_finding_stops_validation:
  "((\<forall>call \<in> set pre. checkFile c d dbPath call = OK) \<longrightarrow>
      checkNoUnexpectedFiles c d dbPath (pre @ VisitError err # post) = Inl (WalkError err) \<and>
      (checkFile c d dbPath call = Inl e \<longrightarrow>
         checkNoUnexpectedFiles c d dbPath (pre @ call # post) = Inl e)) \<and>
   (checkNoUnexpectedFiles c d dbPath walk = Inl e \<longrightarrow> validate c d dbPath walk = Inl e) \<and>
   (checkNoUnexpectedFiles c d dbPath walk = OK \<longrightarrow>
      validate c d dbPath walk = checkInternalConsistency d) \<and>
   (validate c d dbPath walk = OK \<longleftrightarrow>
      checkNoUnexpectedFiles c d dbPath walk = OK \<and> checkInternalConsistency d = OK) \<and>
   (length (Index d) \<noteq> length (EntriesByModule d) \<longrightarrow>
      checkInternalConsistency d =
        Inl (LengthMismatch (length (Index d)) (length (EntriesByModule d)))) \<and>
   (length (Index d) = length (EntriesByModule d) \<longrightarrow>
      (Index d = mpre @ m # mpost \<and> (\<forall>x \<in> set mpre. checkModule d x = OK) \<and>
       checkModule d m = Inl e \<longrightarrow> checkInternalConsistency d = Inl e) \<and>
      ((\<forall>x \<in> set (Index d). checkModule d x = OK) \<longrightarrow>
         (EntriesByID d = ipre @ i # ipost \<and> (\<forall>x \<in> set ipre. checkID d x = OK) \<and>
          checkID d i = Inl e \<longrightarrow> checkInternalConsistency d = Inl e) \<and>
         ((\<forall>x \<in> set (EntriesByID d). checkID d x = OK) \<longrightarrow>
            (IDsByAlias d = apre @ a # apost \<and> (\<forall>x \<in> set apre. checkAliasIDs d x = OK) \<and>
             checkAliasIDs d a = Inl e \<longrightarrow> checkInternalConsistency d = Inl e))))"
proof (intro conjI impI)
  assume pre: "\<forall>call \<in> set pre. checkFile c d dbPath call = OK"
  have "checkFile c d dbPath (VisitError err) = Inl (WalkError err)"
    by (simp add: checkFile.simps)
  with pre show "checkNoUnexpectedFiles c d dbPath (pre @ VisitError err # post) =
      Inl (WalkError err)"
    unfolding checkNoUnexpectedFiles_def by (rule forEach_first_error)
  show "checkNoUnexpectedFiles c d dbPath (pre @ call # post) = Inl e"
    if "checkFile c d dbPath call = Inl e"
    using pre that unfolding checkNoUnexpectedFiles_def by (rule forEach_first_error)
next
  show "validate c d dbPath walk = Inl e" if "checkNoUnexpectedFiles c d dbPath walk = Inl e"
    using that by (simp add: validate_def)
  show "validate c d dbPath walk = checkInternalConsistency d"
    if "checkNoUnexpectedFiles c d dbPath walk = OK"
    using that by (cases "checkInternalConsistency d") (simp_all add: validate_def)
  show "validate c d dbPath walk = OK \<longleftrightarrow>
      checkNoUnexpectedFiles c d dbPath walk = OK \<and> checkInternalConsistency d = OK"
    by (auto simp: validate_def split: sum.splits)
  show "checkInternalConsistency d =
        Inl (LengthMismatch (length (Index d)) (length (EntriesByModule d)))"
    if "length (Index d) \<noteq> length (EntriesByModule d)"
    using that by (simp add: checkInternalConsistency_def)
next
  assume len: "length (Index d) = length (EntriesByModule d)"
  show "checkInternalConsistency d = Inl e"
    if "Index d = mpre @ m # mpost \<and> (\<forall>x \<in> set mpre. checkModule d x = OK) \<and>
       checkModule d m = Inl e"
  proof -
    from that have "forEach (checkModule d) (Index d) = Inl e"
      by (simp add: forEach_first_error)
    with len show ?thesis by (simp add: checkInternalConsistency_def)
  qed
next
  assume len: "length (Index d) = length (EntriesByModule d)"
    and mods: "\<forall>x \<in> set (Index d). checkModule d x = OK"
  then have m: "forEach (checkModule d) (Index d) = OK"
    by (simp add: forEach_OK_iff)
  show "checkInternalConsistency d = Inl e"
    if "EntriesByID d = ipre @ i # ipost \<and> (\<forall>x \<in> set ipre. checkID d x = OK) \<and>
          checkID d i = Inl e"
  proof -
    from that have "forEach (checkID d) (EntriesByID d) = Inl e"
      by (simp add: forEach_first_error)
    with len m show ?thesis by (simp add: checkInternalConsistency_def)
  qed
next
  assume len: "length (Index d) = length (EntriesByModule d)"
    and mods: "\<forall>x \<in> set (Index d). checkModule d x = OK"
    and ids: "\<forall>x \<in> set (EntriesByID d). checkID d x = OK"
    and al: "IDsByAlias d = apre @ a # apost \<and> (\<forall>x \<in> set apre. checkAliasIDs d x = OK) \<and>
             checkAliasIDs d a = Inl e"
  from mods have m: "forEach (checkModule d) (Index d) = OK"
    by (simp add: forEach_OK_iff)
  from ids have i: "forEach (checkID d) (EntriesByID d) = OK"
    by (simp add: forEach_OK_iff)
  from al have "forEach (checkAliasIDs d) (IDsByAlias d) = Inl e"
    by (simp add: forEach_first_error)
  with len m i show "checkInternalConsistency d = Inl e"
    by (simp add: checkInternalConsistency_def)
qed

theorem C7_witness:
  "unreadableWalk = [Visit ''db'' ''db'' True, Visit ''db/ID'' ''ID'' True] @
     VisitError ''open db/ID: permission denied'' # [Visit ''db/stray.txt'' ''stray.txt'' False] \<and>
   checkNoUnexpectedFiles sampleCollaborators validDB ''db'' unreadableWalk =
     Inl (WalkError ''open db/ID: permission denied'') \<and>
   readmeWalk = [Visit ''db'' ''db'' True, Visit ''db/example.com'' ''example.com'' True] @
     Visit ''db/example.com/README'' ''README'' False #
     [Visit ''db/example.com/module.json'' ''module.json'' False,
      Visit ''db/stray.txt'' ''stray.txt'' False] \<and>
   checkNoUnexpectedFiles sampleCollaborators twoFaultsDB ''db'' readmeWalk =
     Inl (NonJSONFile ''db/example.com/README'') \<and>
   validate sampleCollaborators twoFaultsDB ''db'' readmeWalk =
     Inl (NonJSONFile ''db/example.com/README'') \<and>
   checkNoUnexpectedFiles sampleCollaborators validDB ''db'' sampleWalk = OK \<and>
   checkInternalConsistency validDB = OK \<and>
   validate sampleCollaborators validDB ''db'' sampleWalk = OK \<and>
   checkInternalConsistency shortIndexDB = Inl (LengthMismatch 1 2) \<and>
   checkInternalConsistency twoFaultsDB =
     Inl (IncorrectModified ''example.com/module'' jan2003 jan2002) \<and>
   checkInternalConsistency emptyAliasDB =
     Inl (AliasNotFound ''CVE-1999-1111'' ''GO-1999-0001'') \<and>
   checkInternalConsistency extraAliasDB =
     Inl (AdvisoryLacksAlias ''GO-1999-0001'' ''CVE-0000-0000'')"
proof -
  have unreadable: "checkNoUnexpectedFiles sampleCollaborators validDB ''db'' unreadableWalk =
      Inl (WalkError ''open db/ID: permission denied'')"
    using C7_first_finding_stops_validation [where c = sampleCollaborators and d = validDB
        and dbPath = "''db''"
        and pre = "[Visit ''db'' ''db'' True, Visit ''db/ID'' ''ID'' True]"
        and err = "''open db/ID: permission denied''"
        and post = "[Visit ''db/stray.txt'' ''stray.txt'' False]", THEN conjunct1]
    by (simp add: sample_walks unreadableWalk_def)
  have readme: "checkNoUnexpectedFiles sampleCollaborators twoFaultsDB ''db'' readmeWalk =
      Inl (NonJSONFile ''db/example.com/README'')"
    using C7_first_finding_stops_validation [where c = sampleCollaborators and d = twoFaultsDB
        and dbPath = "''db''"
        and pre = "[Visit ''db'' ''db'' True, Visit ''db/example.com'' ''example.com'' True]"
        and call = "Visit ''db/example.com/README'' ''README'' False"
        and e = "NonJSONFile ''db/example.com/README''"
        and post = "[Visit ''db/example.com/module.json'' ''module.json'' False,
          Visit ''db/stray.txt'' ''stray.txt'' False]", THEN conjunct1]
    by (simp add: sample_walks readmeWalk_def)
  have stopped: "validate sampleCollaborators twoFaultsDB ''db'' readmeWalk =
      Inl (NonJSONFile ''db/example.com/README'')"
    using C7_first_finding_stops_validation [where c = sampleCollaborators and d = twoFaultsDB
        and dbPath = "''db''" and walk = readmeWalk
        and e = "NonJSONFile ''db/example.com/README''", THEN conjunct2, THEN conjunct1]
      readme
    by simp
  have valid: "validate sampleCollaborators validDB ''db'' sampleWalk = OK"
    using C7_first_finding_stops_validation [where c = sampleCollaborators and d = validDB
        and dbPath = "''db''" and walk = sampleWalk,
        THEN conjunct2, THEN conjunct2, THEN conjunct2, THEN conjunct1]
      validDB_consistent
    by (simp add: sample_walks)
  have short: "checkInternalConsistency shortIndexDB = Inl (LengthMismatch 1 2)"
    using C7_first_finding_stops_validation [where d = shortIndexDB,
        THEN conjunct2, THEN conjunct2, THEN conjunct2, THEN conjunct2, THEN conjunct1]
    by (simp add: fault_fields)
  have modules: "checkInternalConsistency twoFaultsDB =
      Inl (IncorrectModified ''example.com/module'' jan2003 jan2002)"
    using C7_first_finding_stops_validation [where d = twoFaultsDB and mpre = "[]"
        and m = "(''example.com/module'', jan2002)" and mpost = "[(''stdlib'', jan2000)]"
        and e = "IncorrectModified ''example.com/module'' jan2003 jan2002",
        THEN conjunct2, THEN conjunct2, THEN conjunct2, THEN conjunct2, THEN conjunct2]
      fault_fields(1,2) fault_checks(1)
    by simp
  have ids: "checkInternalConsistency emptyAliasDB =
      Inl (AliasNotFound ''CVE-1999-1111'' ''GO-1999-0001'')"
    using C7_first_finding_stops_validation [where d = emptyAliasDB and ipre = "[]"
        and i = "(''GO-1999-0001'', testOSV1)"
        and ipost = "[(''GO-2000-0002'', testOSV2), (''GO-2000-0003'', testOSV3)]"
        and e = "AliasNotFound ''CVE-1999-1111'' ''GO-1999-0001''",
        THEN conjunct2, THEN conjunct2, THEN conjunct2, THEN conjunct2, THEN conjunct2]
      fault_fields(5,6) fault_checks(2,3)
    by simp
  have aliases: "checkInternalConsistency extraAliasDB =
      Inl (AdvisoryLacksAlias ''GO-1999-0001'' ''CVE-0000-0000'')"
    using C7_first_finding_stops_validation [where d = extraAliasDB and apre = "[]"
        and a = "(''CVE-0000-0000'', [''GO-1999-0001''])"
        and apost = "[(''CVE-1999-1111'', [''GO-1999-0001'']),
          (''CVE-1999-2222'', [''GO-2000-0002'']), (''CVE-1999-3333'', [''GO-2000-0003'']),
          (''GHSA-xxxx-yyyy-zzzz'', [''GO-2000-0003''])]"
        and e = "AdvisoryLacksAlias ''GO-1999-0001'' ''CVE-0000-0000''",
        THEN conjunct2, THEN conjunct2, THEN conjunct2, THEN conjunct2, THEN conjunct2]
      fault_fields(7,8) fault_checks(4,5,6)
    by simp
  show ?thesis
    using unreadable readme stopped valid short modules ids aliases validDB_consistent
    by (simp add: sample_walks unreadableWalk_def readmeWalk_def)
qed



text \<open>
  Claim C9, at a walk that starts at \<^verbatim>\<open>db/\<close>, the database path written with a slash at its
  end. \<^verbatim>\<open>WalkDir\<close> joins the path of a directory and the name of a file in it, which cleans
  the path, so the file \<^verbatim>\<open>index.html\<close> of the top-level directory is visited as
  \<^verbatim>\<open>db/index.html\<close>. The function compares the directory of this path, \<^verbatim>\<open>db\<close>, with the
  database path as it was given, \<^verbatim>\<open>db/\<close>; they differ, so the file is not skipped and fails
  as a non-JSON file, whatever the database and the names of its files are, and so does the
  file pass over a directory that holds it. In the same way the aliases file of the top-level
  directory is not skipped, is read as the file of a module, and fails; the walk over the
  directory of the valid database, which passes from \<^verbatim>\<open>db\<close>, fails there from \<^verbatim>\<open>db/\<close>. What
  the claim says of other directories holds: a file without extension in a subdirectory is
  not skipped.
\<close>

theorem C9_top_level_files_under_a_path_that_is_not_clean:
  "Join [''db/'', ''index.html''] = ''db/index.html'' \<and>
   Dir ''db/index.html'' = ''db'' \<and>
   Ext ''index.html'' = ''.html'' \<and>
   checkFile c d ''db'' (Visit ''db/index.html'' ''index.html'' False) = OK \<and>
   checkFile c d ''db/'' (Visit ''db/index.html'' ''index.html'' False) =
     Inl (NonJSONFile ''db/index.html'') \<and>
   checkNoUnexpectedFiles c d ''db/''
     [Visit ''db/'' ''db'' True, Visit ''db/index.html'' ''index.html'' False] =
     Inl (NonJSONFile ''db/index.html'') \<and>
   checkFile sampleCollaborators validDB ''db/'' (Visit ''db/aliases.json'' ''aliases.json'' False) =
     Inl (UnexpectedModule ''aliases'') \<and>
   checkNoUnexpectedFiles sampleCollaborators validDB ''db'' sampleWalk = OK \<and>
   checkNoUnexpectedFiles sampleCollaborators validDB ''db/'' slashWalk =
     Inl (UnexpectedModule ''aliases'') \<and>
   checkNoUnexpectedFiles sampleCollaborators validDB ''db'' readmeWalk =
     Inl (NonJSONFile ''db/example.com/README'')"
proof -
  have paths: "Join [''db/'', ''index.html''] = ''db/index.html''"
      "Dir ''db/index.html'' = ''db''" "Ext ''index.html'' = ''.html''"
    by code_simp+
  have skipped: "checkFile c d ''db'' (Visit ''db/index.html'' ''index.html'' False) = OK"
    by (simp add: checkFile.simps paths isIndexOrWebFile_def)
  have failed: "checkFile c d ''db/'' (Visit ''db/index.html'' ''index.html'' False) =
      Inl (NonJSONFile ''db/index.html'')"
    by (simp add: checkFile.simps paths)
  have pass: "checkNoUnexpectedFiles c d ''db/''
      [Visit ''db/'' ''db'' True, Visit ''db/index.html'' ''index.html'' False] =
      Inl (NonJSONFile ''db/index.html'')"
    by (simp add: checkNoUnexpectedFiles_def checkFile.simps paths)
  have walks:
    "checkFile sampleCollaborators validDB ''db/''
       (Visit ''db/aliases.json'' ''aliases.json'' False) = Inl (UnexpectedModule ''aliases'')"
    "checkNoUnexpectedFiles sampleCollaborators validDB ''db/'' slashWalk =
       Inl (UnexpectedModule ''aliases'')"
    "checkNoUnexpectedFiles sampleCollaborators validDB ''db'' readmeWalk =
       Inl (NonJSONFile ''db/example.com/README'')"
    by code_simp+
  from paths skipped failed pass walks sample_walks(1) show ?thesis
    by (intro conjI)
qed

text \<open>
  Claim C10. A key that is present with an empty list fails like an absent key: a module of
  the index whose list in \<^verbatim>\<open>EntriesByModule\<close> is empty gets the error that no module
  directory was found for it, an alias of an entry that the alias index maps to an empty list
  gets the error that the alias was not found, and in both cases the check fails.
\<close>

theorem C10_present_but_empty_list_fails:
  "((module, modified) \<in> set (Index d) \<and> map_of (EntriesByModule d) module = Some [] \<longrightarrow>
      checkModule d (module, modified) = Inl (NoModuleDirectory module) \<and>
      (\<exists>e. checkInternalConsistency d = Inl e)) \<and>
   ((eid, entry) \<in> set (EntriesByID d) \<and> alias \<in> set (Aliases entry) \<and>
    map_of (IDsByAlias d) alias = Some [] \<longrightarrow>
      checkAlias d eid entry alias = Inl (AliasNotFound alias eid) \<and>
      (\<exists>e. checkInternalConsistency d = Inl e))"
proof (intro conjI impI)
  assume a: "(module, modified) \<in> set (Index d) \<and> map_of (EntriesByModule d) module = Some []"
  then show m: "checkModule d (module, modified) = Inl (NoModuleDirectory module)"
    by (simp add: checkModule_def)
  with a have "checkInternalConsistency d \<noteq> OK"
    by (auto simp: checkInternalConsistency_OK_iff)
  then show "\<exists>e. checkInternalConsistency d = Inl e"
    by (rule checkInternalConsistency_fails)
next
  assume a: "(eid, entry) \<in> set (EntriesByID d) \<and> alias \<in> set (Aliases entry) \<and>
    map_of (IDsByAlias d) alias = Some []"
  then show m: "checkAlias d eid entry alias = Inl (AliasNotFound alias eid)"
    by (simp add: checkAlias_def)
  with a have "checkID d (eid, entry) \<noteq> OK"
    by (auto simp: checkID_OK_iff)
  with a have "checkInternalConsistency d \<noteq> OK"
    by (auto simp: checkInternalConsistency_OK_iff)
  then show "\<exists>e. checkInternalConsistency d = Inl e"
    by (rule checkInternalConsistency_fails)
qed

theorem C10_witness:
  "(''stdlib'', jan2000) \<in> set (Index emptyModuleDB) \<and>
   map_of (EntriesByModule emptyModuleDB) ''stdlib'' = Some [] \<and>
   checkModule emptyModuleDB (''stdlib'', jan2000) = Inl (NoModuleDirectory ''stdlib'') \<and>
   (\<exists>e. checkInternalConsistency emptyModuleDB = Inl e) \<and>
   (''GO-1999-0001'', testOSV1) \<in> set (EntriesByID emptyAliasDB) \<and>
   ''CVE-1999-1111'' \<in> set (Aliases testOSV1) \<and>
   map_of (IDsByAlias emptyAliasDB) ''CVE-1999-1111'' = Some [] \<and>
   checkAlias emptyAliasDB ''GO-1999-0001'' testOSV1 ''CVE-1999-1111'' =
     Inl (AliasNotFound ''CVE-1999-1111'' ''GO-1999-0001'') \<and>
   (\<exists>e. checkInternalConsistency emptyAliasDB = Inl e)"
  using C10_present_but_empty_list_fails [of "''stdlib''" jan2000 emptyModuleDB]
    C10_present_but_empty_list_fails [of _ _ emptyAliasDB "''GO-1999-0001''" testOSV1
      "''CVE-1999-1111''"]
  by (simp add: emptyModuleDB_def emptyAliasDB_def validDB_fields example_aliases)

end
